theory Spec2Isabelle
  imports Complex_Main "HOL-Library.Word"
begin

unbundle bit_operations_syntax

section \<open>RIFT standard library, HTTP module: a shallow embedding\<close>

text \<open>
  The theory follows \<^verbatim>\<open>RIFT/src/stdlib/http.py\<close>. Every class of the module is a
  record of its fields, every method a function that takes the object and returns its
  result together with the updated object. The wall clock (\<^verbatim>\<open>time.time()\<close>) is an
  argument of each method that reads it, once for every reading; timestamps are real
  numbers, so the rounding of floating-point subtraction is left out. Dictionaries are
  maps, or lists of pairs where their order matters. An exception that leaves a method
  is a value of the result (\<open>Inl\<close>, \<open>Raises\<close>).
\<close>

subsection \<open>SessionStore\<close>

record 'v session =
  data :: "string \<rightharpoonup> 'v"
  created_at :: real
  last_accessed :: real

record 'v session_store =
  sessions :: "string \<rightharpoonup> 'v session"
  ttl :: int

text \<open>\<^verbatim>\<open>SessionStore(ttl)\<close>: no sessions yet.\<close>

definition SessionStore_init :: "int \<Rightarrow> 'v session_store" where
  "SessionStore_init t = \<lparr>sessions = Map.empty, ttl = t\<rparr>"

text \<open>
  \<^verbatim>\<open>create\<close>: the token of \<^verbatim>\<open>secrets.token_urlsafe(32)\<close> is the argument \<open>sid\<close>; the clock
  is read twice, once for each timestamp; \<^verbatim>\<open>data or {}\<close> turns a missing argument into the
  empty dictionary.
\<close>

definition SessionStore_create ::
  "'v session_store \<Rightarrow> string \<Rightarrow> (string \<rightharpoonup> 'v) option \<Rightarrow> real \<Rightarrow> real \<Rightarrow> string \<times> 'v session_store" where
  "SessionStore_create st sid d now now' =
     (sid, st\<lparr>sessions := (sessions st)(sid \<mapsto>
        \<lparr>data = (case d of None \<Rightarrow> Map.empty | Some m \<Rightarrow> m),
         created_at = now, last_accessed = now'\<rparr>)\<rparr>)"

text \<open>
  \<^verbatim>\<open>get\<close>: \<open>now\<close> is the clock reading of the TTL check, \<open>now'\<close> the later reading that
  is stored as the new \<^verbatim>\<open>last_accessed\<close>.
\<close>

definition SessionStore_get ::
  "'v session_store \<Rightarrow> string \<Rightarrow> real \<Rightarrow> real \<Rightarrow> (string \<rightharpoonup> 'v) option \<times> 'v session_store" where
  "SessionStore_get st sid now now' =
     (case sessions st sid of
        None \<Rightarrow> (None, st)
      | Some s \<Rightarrow>
          if now - last_accessed s > real_of_int (ttl st)
          then (None, st\<lparr>sessions := (sessions st)(sid := None)\<rparr>)
          else (Some (data s),
                st\<lparr>sessions := (sessions st)(sid \<mapsto> s\<lparr>last_accessed := now'\<rparr>)\<rparr>))"

definition SessionStore_set ::
  "'v session_store \<Rightarrow> string \<Rightarrow> (string \<rightharpoonup> 'v) \<Rightarrow> real \<Rightarrow> bool \<times> 'v session_store" where
  "SessionStore_set st sid d now =
     (case sessions st sid of
        None \<Rightarrow> (False, st)
      | Some s \<Rightarrow>
          (True, st\<lparr>sessions := (sessions st)(sid \<mapsto> s\<lparr>data := d, last_accessed := now\<rparr>)\<rparr>))"

definition SessionStore_destroy :: "'v session_store \<Rightarrow> string \<Rightarrow> bool \<times> 'v session_store" where
  "SessionStore_destroy st sid =
     (case sessions st sid of
        None \<Rightarrow> (False, st)
      | Some s \<Rightarrow> (True, st\<lparr>sessions := (sessions st)(sid := None)\<rparr>))"

definition SessionStore_cleanup :: "'v session_store \<Rightarrow> real \<Rightarrow> 'v session_store" where
  "SessionStore_cleanup st now =
     st\<lparr>sessions := (\<lambda>sid. case sessions st sid of
                        None \<Rightarrow> None
                      | Some s \<Rightarrow> if now - last_accessed s > real_of_int (ttl st)
                                  then None else Some s)\<rparr>"

subsection \<open>RateLimiter\<close>

record rate_limiter =
  max_requests :: int
  window :: int
  requests :: "string \<rightharpoonup> real list"

definition RateLimiter_init :: "int \<Rightarrow> int \<Rightarrow> rate_limiter" where
  "RateLimiter_init m w = \<lparr>max_requests = m, window = w, requests = Map.empty\<rparr>"

text \<open>\<^verbatim>\<open>self._requests[key]\<close> on a \<^verbatim>\<open>defaultdict(list)\<close>: a missing key reads as the empty list.\<close>

definition requests_of :: "rate_limiter \<Rightarrow> string \<Rightarrow> real list" where
  "requests_of rl key = (case requests rl key of None \<Rightarrow> [] | Some ts \<Rightarrow> ts)"

definition prune :: "rate_limiter \<Rightarrow> string \<Rightarrow> real \<Rightarrow> real list" where
  "prune rl key now = filter (\<lambda>t. now - t < real_of_int (window rl)) (requests_of rl key)"

definition RateLimiter_is_allowed :: "rate_limiter \<Rightarrow> string \<Rightarrow> real \<Rightarrow> bool \<times> rate_limiter" where
  "RateLimiter_is_allowed rl key now =
     (let rl1 = rl\<lparr>requests := (requests rl)(key \<mapsto> prune rl key now)\<rparr> in
      if int (length (requests_of rl1 key)) < max_requests rl1
      then (True, rl1\<lparr>requests := (requests rl1)(key \<mapsto> requests_of rl1 key @ [now])\<rparr>)
      else (False, rl1))"

definition RateLimiter_remaining :: "rate_limiter \<Rightarrow> string \<Rightarrow> real \<Rightarrow> int \<times> rate_limiter" where
  "RateLimiter_remaining rl key now =
     (let rl1 = rl\<lparr>requests := (requests rl)(key \<mapsto> prune rl key now)\<rparr> in
      (max 0 (max_requests rl1 - int (length (requests_of rl1 key))), rl1))"

text \<open>A caller that asks \<^verbatim>\<open>is_allowed\<close> for one key at each of the given clock readings.\<close>

fun is_allowed_calls :: "rate_limiter \<Rightarrow> string \<Rightarrow> real list \<Rightarrow> bool list \<times> rate_limiter" where
  "is_allowed_calls rl key [] = ([], rl)"
| "is_allowed_calls rl key (t # ts) =
     (case RateLimiter_is_allowed rl key t of
        (b, rl') \<Rightarrow> (case is_allowed_calls rl' key ts of (bs, rl'') \<Rightarrow> (b # bs, rl'')))"

subsection \<open>CORSHandler\<close>

text \<open>\<^verbatim>\<open>sep.join(xs)\<close> and \<^verbatim>\<open>str(n)\<close> of an integer.\<close>

fun join :: "string \<Rightarrow> string list \<Rightarrow> string" where
  "join sep [] = []"
| "join sep [x] = x"
| "join sep (x # y # ys) = x @ sep @ join sep (y # ys)"

definition digit_char :: "nat \<Rightarrow> char" where
  "digit_char d = ''0123456789'' ! d"

function digits_of :: "nat \<Rightarrow> string" where
  "digits_of n = (if n < 10 then [digit_char n] else digits_of (n div 10) @ [digit_char (n mod 10)])"
  by pat_completeness auto
termination
  by (relation "measure id") auto

declare digits_of.simps [simp del]

definition str_int :: "int \<Rightarrow> string" where
  "str_int i = (if i < 0 then CHR ''-'' # digits_of (nat (- i)) else digits_of (nat i))"

record cors_handler =
  origins :: "string list"
  methods :: "string list"
  headers :: "string list"
  credentials :: bool
  max_age :: int

text \<open>
  The constructor takes \<^verbatim>\<open>origins\<close> as one string or as a list; \<^verbatim>\<open>methods or [...]\<close> and
  \<^verbatim>\<open>headers or [...]\<close> replace a missing or empty list by the default.
\<close>

datatype origins_arg = OriginStr string | OriginList "string list"

definition or_default :: "'a list option \<Rightarrow> 'a list \<Rightarrow> 'a list" where
  "or_default arg dflt = (case arg of None \<Rightarrow> dflt | Some [] \<Rightarrow> dflt | Some (x # xs) \<Rightarrow> x # xs)"

definition CORSHandler_init ::
  "origins_arg \<Rightarrow> string list option \<Rightarrow> string list option \<Rightarrow> bool \<Rightarrow> int \<Rightarrow> cors_handler" where
  "CORSHandler_init orig meths hdrs cred age =
     \<lparr>origins = (case orig of OriginList xs \<Rightarrow> xs | OriginStr x \<Rightarrow> [x]),
      methods = or_default meths [''GET'', ''POST'', ''PUT'', ''DELETE'', ''PATCH'', ''OPTIONS''],
      headers = or_default hdrs [''Content-Type'', ''Authorization''],
      credentials = cred,
      max_age = age\<rparr>"

text \<open>
  \<^verbatim>\<open>add_headers\<close>: the request origin is \<^verbatim>\<open>None\<close> or a string; the test
  \<^verbatim>\<open>request_origin and ...\<close> is false for \<^verbatim>\<open>None\<close> and for the empty string.
\<close>

definition truthy :: "string option \<Rightarrow> bool" where
  "truthy s = (case s of None \<Rightarrow> False | Some x \<Rightarrow> x \<noteq> [])"

definition allow_origin :: "cors_handler \<Rightarrow> string option \<Rightarrow> (string \<rightharpoonup> string) \<Rightarrow> (string \<rightharpoonup> string)" where
  "allow_origin self request_origin hs =
     (if ''*'' \<in> set (origins self) then hs(''Access-Control-Allow-Origin'' \<mapsto> ''*'')
      else if truthy request_origin \<and> the request_origin \<in> set (origins self)
        then hs(''Access-Control-Allow-Origin'' \<mapsto> the request_origin)
      else if origins self \<noteq> [] then hs(''Access-Control-Allow-Origin'' \<mapsto> hd (origins self))
      else hs)"

definition add_headers :: "cors_handler \<Rightarrow> string option \<Rightarrow> (string \<rightharpoonup> string)" where
  "add_headers self request_origin =
     (let hs = allow_origin self request_origin Map.empty;
          hs = hs(''Access-Control-Allow-Methods'' \<mapsto> join '', '' (methods self));
          hs = hs(''Access-Control-Allow-Headers'' \<mapsto> join '', '' (headers self));
          hs = hs(''Access-Control-Max-Age'' \<mapsto> str_int (max_age self))
      in if credentials self then hs(''Access-Control-Allow-Credentials'' \<mapsto> ''true'') else hs)"

subsection \<open>UTF-8\<close>

text \<open>
  A Python \<^verbatim>\<open>str\<close> is a list of code points, a \<^verbatim>\<open>bytes\<close> object a list of 8-bit words.
  \<^verbatim>\<open>str.encode('utf-8')\<close> raises on a surrogate; the numbers from \<^verbatim>\<open>0x110000\<close> on are no
  code points of any \<^verbatim>\<open>str\<close>, and the encoder of the model refuses them in the same way.
\<close>

type_synonym byte = "8 word"
type_synonym pystr = "nat list"

datatype py_error =
  UnicodeEncodeError | UnicodeDecodeError | OverflowError | IndexError | ReError

definition utf8_encode_char :: "nat \<Rightarrow> byte list option" where
  "utf8_encode_char cp =
     (if cp < 0x80 then Some [of_nat cp]
      else if cp < 0x800 then Some [of_nat (0xC0 + cp div 64), of_nat (0x80 + cp mod 64)]
      else if cp < 0x10000 then
        (if 0xD800 \<le> cp \<and> cp \<le> 0xDFFF then None
         else Some [of_nat (0xE0 + cp div 4096), of_nat (0x80 + cp div 64 mod 64),
                    of_nat (0x80 + cp mod 64)])
      else if cp < 0x110000 then
        Some [of_nat (0xF0 + cp div 262144), of_nat (0x80 + cp div 4096 mod 64),
              of_nat (0x80 + cp div 64 mod 64), of_nat (0x80 + cp mod 64)]
      else None)"

fun utf8_encode :: "pystr \<Rightarrow> py_error + byte list" where
  "utf8_encode [] = Inr []"
| "utf8_encode (cp # cps) =
     (case utf8_encode_char cp of
        None \<Rightarrow> Inl UnicodeEncodeError
      | Some bs \<Rightarrow> (case utf8_encode cps of Inl e \<Rightarrow> Inl e | Inr rest \<Rightarrow> Inr (bs @ rest)))"

text \<open>
  The decoder reads one lead byte and the continuation bytes it asks for. Each
  continuation byte has a range that depends on the lead byte (the ranges that exclude
  overlong forms, surrogates and values above \<^verbatim>\<open>0x10FFFF\<close>). \<open>utf8_next\<close> returns the code
  point, or \<open>None\<close> for an ill-formed sequence, and the number of bytes it covers: for an
  ill-formed sequence the lead byte and the continuation bytes that were still in range.
\<close>

definition cont_ranges :: "nat \<Rightarrow> (nat \<times> nat) list option" where
  "cont_ranges b =
     (if b < 0xC2 then None
      else if b < 0xE0 then Some [(0x80, 0xBF)]
      else if b = 0xE0 then Some [(0xA0, 0xBF), (0x80, 0xBF)]
      else if b = 0xED then Some [(0x80, 0x9F), (0x80, 0xBF)]
      else if b < 0xF0 then Some [(0x80, 0xBF), (0x80, 0xBF)]
      else if b = 0xF0 then Some [(0x90, 0xBF), (0x80, 0xBF), (0x80, 0xBF)]
      else if b < 0xF4 then Some [(0x80, 0xBF), (0x80, 0xBF), (0x80, 0xBF)]
      else if b = 0xF4 then Some [(0x80, 0x8F), (0x80, 0xBF), (0x80, 0xBF)]
      else None)"

definition lead_bits :: "nat \<Rightarrow> nat" where
  "lead_bits b = (if b < 0xE0 then b - 0xC0 else if b < 0xF0 then b - 0xE0 else b - 0xF0)"

fun take_conts :: "(nat \<times> nat) list \<Rightarrow> byte list \<Rightarrow> nat list" where
  "take_conts [] bs = []"
| "take_conts (r # rs) [] = []"
| "take_conts ((lo, hi) # rs) (b # bs) =
     (if lo \<le> unat b \<and> unat b \<le> hi then unat b # take_conts rs bs else [])"

definition utf8_next :: "byte \<Rightarrow> byte list \<Rightarrow> nat option \<times> nat" where
  "utf8_next b bs =
     (if unat b < 0x80 then (Some (unat b), 1)
      else case cont_ranges (unat b) of
             None \<Rightarrow> (None, 1)
           | Some rs \<Rightarrow>
               (let cs = take_conts rs bs in
                if length cs = length rs
                then (Some (foldl (\<lambda>acc c. acc * 64 + c mod 64) (lead_bits (unat b)) cs),
                      1 + length cs)
                else (None, 1 + length cs)))"

text \<open>\<^verbatim>\<open>bytes.decode('utf-8')\<close>, strict: the first ill-formed sequence raises.\<close>

fun utf8_decode :: "byte list \<Rightarrow> py_error + pystr" where
  "utf8_decode [] = Inr []"
| "utf8_decode (b # bs) =
     (case utf8_next b bs of
        (None, n) \<Rightarrow> Inl UnicodeDecodeError
      | (Some cp, n) \<Rightarrow>
          (case utf8_decode (drop (n - 1) bs) of Inl e \<Rightarrow> Inl e | Inr cps \<Rightarrow> Inr (cp # cps)))"

text \<open>
  \<^verbatim>\<open>bytes.decode('utf-8', errors='replace')\<close>: every ill-formed sequence becomes one
  \<^verbatim>\<open>U+FFFD\<close> and decoding goes on behind it.
\<close>

fun utf8_decode_replace :: "byte list \<Rightarrow> pystr" where
  "utf8_decode_replace [] = []"
| "utf8_decode_replace (b # bs) =
     (case utf8_next b bs of
        (None, n) \<Rightarrow> 0xFFFD # utf8_decode_replace (drop (n - 1) bs)
      | (Some cp, n) \<Rightarrow> cp # utf8_decode_replace (drop (n - 1) bs))"

subsection \<open>WebSocketConnection\<close>

text \<open>
  The connection holds the flag \<^verbatim>\<open>connected\<close> and the two streams of its request handler:
  \<open>rfile\<close> is the input that has not been read yet, \<open>wfile\<close> the output written so far.
  \<open>wfile_broken\<close> says that a write raises (the peer is gone). A read of \<open>n\<close> bytes blocks
  until it has them or the input ends, so it returns the next \<open>n\<close> bytes or all that is
  left.
\<close>

record ws_connection =
  connected :: bool
  rfile :: "byte list"
  wfile :: "byte list"
  wfile_broken :: bool

definition rfile_read :: "nat \<Rightarrow> ws_connection \<Rightarrow> byte list \<times> ws_connection" where
  "rfile_read n c = (take n (rfile c), c\<lparr>rfile := drop n (rfile c)\<rparr>)"

text \<open>\<^verbatim>\<open>n.to_bytes(k, 'big')\<close> and \<^verbatim>\<open>int.from_bytes(bs, 'big')\<close>.\<close>

fun big_endian :: "nat \<Rightarrow> nat \<Rightarrow> byte list" where
  "big_endian 0 n = []"
| "big_endian (Suc k) n = big_endian k (n div 256) @ [of_nat (n mod 256)]"

definition to_bytes :: "nat \<Rightarrow> nat \<Rightarrow> py_error + byte list" where
  "to_bytes n k = (if n < 256 ^ k then Inr (big_endian k n) else Inl OverflowError)"

definition from_bytes :: "byte list \<Rightarrow> nat" where
  "from_bytes bs = foldl (\<lambda>acc b. acc * 256 + unat b) 0 bs"

text \<open>The length bytes of a frame header, as \<^verbatim>\<open>send\<close> appends them behind \<^verbatim>\<open>0x81\<close>.\<close>

definition length_bytes :: "nat \<Rightarrow> py_error + byte list" where
  "length_bytes n =
     (if n \<le> 125 then Inr [of_nat n]
      else if n \<le> 65535 then
        (case to_bytes n 2 of Inl e \<Rightarrow> Inl e | Inr bs \<Rightarrow> Inr (126 # bs))
      else
        (case to_bytes n 8 of Inl e \<Rightarrow> Inl e | Inr bs \<Rightarrow> Inr (127 # bs)))"

text \<open>
  \<^verbatim>\<open>send\<close>: the encoding of the message and the header are computed outside the
  \<^verbatim>\<open>try\<close>, so their errors reach the caller (\<open>Inl\<close>); a failing write is caught.
\<close>

definition WebSocketConnection_send ::
  "ws_connection \<Rightarrow> pystr \<Rightarrow> py_error + bool \<times> ws_connection" where
  "WebSocketConnection_send c message =
     (if \<not> connected c then Inr (False, c)
      else case utf8_encode message of
        Inl e \<Rightarrow> Inl e
      | Inr payload \<Rightarrow>
          (case length_bytes (length payload) of
             Inl e \<Rightarrow> Inl e
           | Inr lb \<Rightarrow>
               if wfile_broken c then Inr (False, c\<lparr>connected := False\<rparr>)
               else Inr (True, c\<lparr>wfile := wfile c @ (0x81 # lb) @ payload\<rparr>)))"

text \<open>
  The unmasking loop \<^verbatim>\<open>for i in range(length): data[i] ^= mask[i % 4]\<close>. An index beyond
  the bytes that were read raises \<^verbatim>\<open>IndexError\<close>: the result is \<open>None\<close>.
\<close>

function unmask :: "nat \<Rightarrow> nat \<Rightarrow> byte list \<Rightarrow> byte list \<Rightarrow> byte list option" where
  "unmask i n mkey bs =
     (if i < n then
        (if i < length bs \<and> i mod 4 < length mkey
         then unmask (Suc i) n mkey (bs[i := bs ! i XOR mkey ! (i mod 4)])
         else None)
      else Some bs)"
  by pat_completeness auto
termination
  by (relation "measure (\<lambda>(i, n, mkey, bs). n - i)") auto

declare unmask.simps [simp del]

text \<open>
  \<^verbatim>\<open>receive\<close>. Everything after the header check runs inside \<^verbatim>\<open>try\<close>: any error closes
  the connection and returns \<^verbatim>\<open>None\<close>. A read of more than \<^verbatim>\<open>sys.maxsize\<close> bytes raises
  \<^verbatim>\<open>OverflowError\<close> (here \<open>2 ^ 63 - 1\<close>, a 64-bit platform); a smaller read is taken to
  succeed, the memory of the machine is not part of the model.
\<close>

definition maxsize :: nat where
  "maxsize = 2 ^ 63 - 1"

definition read_length :: "nat \<Rightarrow> ws_connection \<Rightarrow> nat \<times> ws_connection" where
  "read_length len7 c =
     (if len7 = 126 then (case rfile_read 2 c of (bs, c') \<Rightarrow> (from_bytes bs, c'))
      else if len7 = 127 then (case rfile_read 8 c of (bs, c') \<Rightarrow> (from_bytes bs, c'))
      else (len7, c))"

definition WebSocketConnection_receive :: "ws_connection \<Rightarrow> pystr option \<times> ws_connection" where
  "WebSocketConnection_receive c =
     (case rfile_read 2 c of (header, c1) \<Rightarrow>
        if length header \<noteq> 2 then (None, c1)
        else
          let opcode = header ! 0 AND 0x0F;
              masked = header ! 1 AND 0x80
          in case read_length (unat (header ! 1 AND 0x7F)) c1 of (len, c2) \<Rightarrow>
             case (if masked \<noteq> 0 then rfile_read 4 c2 else ([], c2)) of (mkey, c3) \<Rightarrow>
             if len > maxsize then (None, c3\<lparr>connected := False\<rparr>)
             else case rfile_read len c3 of (bs, c4) \<Rightarrow>
               (case (if masked \<noteq> 0 then unmask 0 len mkey bs else Some bs) of
                  None \<Rightarrow> (None, c4\<lparr>connected := False\<rparr>)
                | Some payload \<Rightarrow>
                    if opcode = 0x01 then
                      (case utf8_decode payload of
                         Inl e \<Rightarrow> (None, c4\<lparr>connected := False\<rparr>)
                       | Inr message \<Rightarrow> (Some message, c4))
                    else if opcode = 0x08 then (None, c4\<lparr>connected := False\<rparr>)
                    else (None, c4)))"

text \<open>
  The frame a client sends for the payload of a server frame: the same first byte and
  length bytes with the mask bit set, the four bytes of the masking key, and the payload
  with byte \<open>i\<close> XORed with byte \<open>i mod 4\<close> of the key (RFC 6455, section 5.3).
\<close>

definition apply_mask :: "byte list \<Rightarrow> byte list \<Rightarrow> byte list" where
  "apply_mask key bs = map (\<lambda>(i, b). b XOR key ! (i mod 4)) (enumerate 0 bs)"

definition mask_frame :: "byte list \<Rightarrow> byte list \<Rightarrow> byte list" where
  "mask_frame key frame =
     (case frame of
        b0 # b1 # rest \<Rightarrow>
          (let k = (if b1 = 126 then 2 else if b1 = 127 then 8 else 0)
           in b0 # (b1 OR 0x80) # take k rest @ key @ apply_mask key (drop k rest))
      | _ \<Rightarrow> frame)"

subsection \<open>Python values\<close>

text \<open>
  What a handler receives and returns. A \<^verbatim>\<open>str\<close> inside a value is a list of code points;
  \<open>lit\<close> embeds a literal of the source. A dictionary keeps its keys in insertion order,
  and an assignment to a key it has replaces the value in place.
\<close>

datatype pyval =
  PNone | PInt int | PStr pystr | PBytes "byte list" | PList "pyval list"
  | PDict "(pystr \<times> pyval) list"

definition lit :: "string \<Rightarrow> pystr" where
  "lit s = map of_char s"

fun dict_set :: "('k \<times> 'v) list \<Rightarrow> 'k \<Rightarrow> 'v \<Rightarrow> ('k \<times> 'v) list" where
  "dict_set [] k v = [(k, v)]"
| "dict_set ((k', v') # kvs) k v =
     (if k' = k then (k, v) # kvs else (k', v') # dict_set kvs k v)"

text \<open>
  The result of a call into the \<^verbatim>\<open>re\<close> module or of code that uses it: a value, a raised
  exception, or \<open>Unmodelled\<close> when a pattern lies outside the fragment of regular
  expressions that this theory gives a meaning to.
\<close>

datatype 'a py_result = Returns 'a | Raises py_error | Unmodelled

subsection \<open>Path templates\<close>

text \<open>
  Paths and templates are strings of characters below 256 (the request line is decoded
  as Latin-1). \<open>is_word_char\<close> is the class \<^verbatim>\<open>\w\<close> of a \<^verbatim>\<open>str\<close> pattern on these
  characters: the ASCII letters, digits and underscore, and the Latin-1 characters that
  are alphanumeric in Unicode.
\<close>

definition is_word_char :: "char \<Rightarrow> bool" where
  "is_word_char c =
     (let n = (of_char c :: nat) in
      (48 \<le> n \<and> n \<le> 57) \<or> (65 \<le> n \<and> n \<le> 90) \<or> n = 95 \<or> (97 \<le> n \<and> n \<le> 122)
      \<or> n = 0xAA \<or> n = 0xB2 \<or> n = 0xB3 \<or> n = 0xB5 \<or> n = 0xB9 \<or> n = 0xBA
      \<or> (0xBC \<le> n \<and> n \<le> 0xBE) \<or> (0xC0 \<le> n \<and> n \<le> 0xD6) \<or> (0xD8 \<le> n \<and> n \<le> 0xF6)
      \<or> 0xF8 \<le> n)"

text \<open>
  \<^verbatim>\<open>re.sub(r':(\w+)', r'(?P<\1>[^/]+)', path)\<close>: from left to right, every colon that is
  followed by word characters is replaced, together with the longest run of them.
\<close>

function sub_params :: "string \<Rightarrow> string" where
  "sub_params [] = []"
| "sub_params (c # cs) =
     (if c = CHR '':'' \<and> takeWhile is_word_char cs \<noteq> []
      then ''(?P<'' @ takeWhile is_word_char cs @ ''>[^/]+)'' @ sub_params (dropWhile is_word_char cs)
      else c # sub_params cs)"
  by pat_completeness auto
termination
  by (relation "measure length") (auto simp: length_dropWhile_le less_Suc_eq_le)

definition path_to_regex :: "string \<Rightarrow> string" where
  "path_to_regex path = ''^'' @ sub_params path @ ''$''"

subsection \<open>The fragment of \<^verbatim>\<open>re\<close> that templates produce\<close>

text \<open>
  The text of a template around the names is not escaped, so it is read as regular
  expression syntax. A pattern of the fragment is \<^verbatim>\<open>^\<close>, a sequence of items, \<^verbatim>\<open>$\<close>. An
  item is a character that stands for itself, a dot, a named group
  \<^verbatim>\<open>(?P<name>[^/]+)\<close> with an ASCII name, or such a group with the quantifier \<^verbatim>\<open>?\<close>
  behind it (as the template \<^verbatim>\<open>/a/:id?\<close> gives). A pattern with any other use of a
  special character is outside the fragment.
\<close>

datatype re_item = Lit char | AnyChar | Group string | OptGroup string

definition is_special :: "char \<Rightarrow> bool" where
  "is_special c = (c \<in> set ''.^$*+?{}[]|()'' \<or> c = CHR 0x5C)"

definition is_ascii :: "char \<Rightarrow> bool" where
  "is_ascii c = ((of_char c :: nat) < 128)"

function re_tokens :: "string \<Rightarrow> re_item list option" where
  "re_tokens [] = Some []"
| "re_tokens (c # cs) =
     (if take 4 (c # cs) = ''(?P<'' then
        (let name = takeWhile (\<lambda>x. x \<noteq> CHR ''>'') (drop 3 cs);
             after = dropWhile (\<lambda>x. x \<noteq> CHR ''>'') (drop 3 cs)
         in if take 7 after = ''>[^/]+)'' \<and> list_all is_ascii name
            then (if take 1 (drop 7 after) = ''?''
                  then map_option (Cons (OptGroup name)) (re_tokens (drop 8 after))
                  else map_option (Cons (Group name)) (re_tokens (drop 7 after)))
            else None)
      else if c = CHR ''.'' then map_option (Cons AnyChar) (re_tokens cs)
      else if is_special c then None
      else map_option (Cons (Lit c)) (re_tokens cs))"
  by pat_completeness auto
termination
proof (relation "measure length")
  fix c :: char and cs name after :: string
  assume "after = dropWhile (\<lambda>x. x \<noteq> CHR ''>'') (drop 3 cs)"
  then have "length after \<le> length cs"
    by (simp add: le_trans [OF length_dropWhile_le])
  then show "(drop 8 after, c # cs) \<in> measure length"
    and "(drop 7 after, c # cs) \<in> measure length" by simp_all
qed auto

text \<open>
  A group name must be an identifier, and no two groups may share a name: otherwise
  compiling the pattern raises \<^verbatim>\<open>re.error\<close>.
\<close>

definition is_ident_start :: "char \<Rightarrow> bool" where
  "is_ident_start c =
     (let n = (of_char c :: nat) in (65 \<le> n \<and> n \<le> 90) \<or> n = 95 \<or> (97 \<le> n \<and> n \<le> 122))"

definition is_ident_char :: "char \<Rightarrow> bool" where
  "is_ident_char c = (is_ident_start c \<or> (48 \<le> (of_char c :: nat) \<and> (of_char c :: nat) \<le> 57))"

definition is_identifier :: "string \<Rightarrow> bool" where
  "is_identifier name =
     (case name of [] \<Rightarrow> False | c # cs \<Rightarrow> is_ident_start c \<and> list_all is_ident_char cs)"

fun group_names :: "re_item list \<Rightarrow> string list" where
  "group_names [] = []"
| "group_names (Group name # items) = name # group_names items"
| "group_names (OptGroup name # items) = name # group_names items"
| "group_names (item # items) = group_names items"

definition re_compile :: "string \<Rightarrow> re_item list py_result" where
  "re_compile pattern =
     (case pattern of
        [] \<Rightarrow> Unmodelled
      | c # cs \<Rightarrow>
          if c = CHR ''^'' \<and> cs \<noteq> [] \<and> last cs = CHR ''$'' then
            (case re_tokens (butlast cs) of
               None \<Rightarrow> Unmodelled
             | Some items \<Rightarrow>
                 if list_all is_identifier (group_names items) \<and> distinct (group_names items)
                 then Returns items else Raises ReError)
          else Unmodelled)"

text \<open>
  Matching at the start of the string, as \<^verbatim>\<open>re.match\<close> does. A group takes the longest
  run of characters other than \<^verbatim>\<open>/\<close> first and gives characters back one at a time while
  the rest of the pattern fails; \<open>first_split\<close> tries the lengths from \<open>m\<close> down to 1. An
  optional group does the same and, when no length works, matches nothing and takes no
  part in the match. The final \<^verbatim>\<open>$\<close> matches at the end of the string and before a newline
  that ends it. The result is the \<^verbatim>\<open>groupdict()\<close> of the match, in the order of the groups:
  the string a group matched, or \<^verbatim>\<open>None\<close> for a group that took no part.
\<close>

type_synonym groupdict = "(string \<times> string option) list"

fun first_split ::
  "string \<Rightarrow> (string \<Rightarrow> groupdict option) \<Rightarrow> string \<Rightarrow> nat \<Rightarrow> groupdict option" where
  "first_split name k s 0 = None"
| "first_split name k s (Suc m) =
     (case k (drop (Suc m) s) of
        Some gd \<Rightarrow> Some ((name, Some (take (Suc m) s)) # gd)
      | None \<Rightarrow> first_split name k s m)"

primrec match_items :: "re_item list \<Rightarrow> string \<Rightarrow> groupdict option" where
  "match_items [] s = (if s = [] \<or> s = [CHR 0x0A] then Some [] else None)"
| "match_items (item # items) s =
     (case item of
        Lit c \<Rightarrow> (case s of [] \<Rightarrow> None | x # xs \<Rightarrow> if x = c then match_items items xs else None)
      | AnyChar \<Rightarrow>
          (case s of [] \<Rightarrow> None | x # xs \<Rightarrow> if x \<noteq> CHR 0x0A then match_items items xs else None)
      | Group name \<Rightarrow>
          first_split name (match_items items) s (length (takeWhile (\<lambda>x. x \<noteq> CHR ''/'') s))
      | OptGroup name \<Rightarrow>
          (case first_split name (match_items items) s
                  (length (takeWhile (\<lambda>x. x \<noteq> CHR ''/'') s)) of
             Some gd \<Rightarrow> Some gd
           | None \<Rightarrow> map_option (Cons (name, None)) (match_items items s)))"

definition re_match :: "string \<Rightarrow> string \<Rightarrow> groupdict option py_result" where
  "re_match pattern s =
     (case re_compile pattern of
        Returns items \<Rightarrow> Returns (match_items items s)
      | Raises e \<Rightarrow> Raises e
      | Unmodelled \<Rightarrow> Unmodelled)"

text \<open>
  A plain template: ASCII characters, none of them special in a regular expression
  except the dot. This is not a test the source makes; it names the templates whose
  text the pattern takes literally.
\<close>

definition plain_template :: "string \<Rightarrow> bool" where
  "plain_template t = list_all (\<lambda>c. is_ascii c \<and> (\<not> is_special c \<or> c = CHR ''.'')) t"

subsection \<open>RiftHTTPServer: routes\<close>

text \<open>
  A route is the tuple the source stores: the pattern, the methods, the handler and the
  template. The server object is reduced to the fields that dispatching reads. Handlers
  and middleware are values of the host language, of a type \<open>'h\<close> left open.
  \<^verbatim>\<open>str.upper\<close> is modelled on the characters below 256: the small letters of ASCII and
  Latin-1 become their capitals and the sharp s becomes \<^verbatim>\<open>SS\<close>. The capitals of the micro
  sign and of y with diaeresis lie beyond 255; these two characters are left as they
  are, and either way the result is the name of no method a request carries.
\<close>

type_synonym 'h route = "string \<times> string list \<times> 'h \<times> string"

record 'h server =
  routes :: "'h route list"
  middleware :: "'h list"
  static_routes :: "(string \<times> string) list"

definition RiftHTTPServer_init :: "'h server" where
  "RiftHTTPServer_init = \<lparr>routes = [], middleware = [], static_routes = []\<rparr>"

definition upper_char :: "char \<Rightarrow> string" where
  "upper_char c =
     (let n = (of_char c :: nat) in
      if (97 \<le> n \<and> n \<le> 122) \<or> (0xE0 \<le> n \<and> n \<le> 0xFE \<and> n \<noteq> 0xF7) then [char_of (n - 32)]
      else if n = 0xDF then ''SS''
      else [c])"

definition upper :: "string \<Rightarrow> string" where
  "upper s = concat (map upper_char s)"

definition route :: "'h server \<Rightarrow> string \<Rightarrow> string list \<Rightarrow> 'h \<Rightarrow> 'h server" where
  "route self path meths handler =
     self\<lparr>routes := routes self @ [(path_to_regex path, map upper meths, handler, path)]\<rparr>"

definition add_middleware :: "'h server \<Rightarrow> 'h \<Rightarrow> 'h server" where
  "add_middleware self handler = self\<lparr>middleware := middleware self @ [handler]\<rparr>"

definition static :: "'h server \<Rightarrow> string \<Rightarrow> string \<Rightarrow> 'h server" where
  "static self url_path directory =
     self\<lparr>static_routes := dict_set (static_routes self) url_path directory\<rparr>"

text \<open>
  \<^verbatim>\<open>_match_route\<close>: the loop over the routes. The pattern of a route is compiled when the
  loop reaches it with a method the route allows, so a pattern that \<^verbatim>\<open>re\<close> rejects raises
  there.
\<close>

fun match_route :: "'h route list \<Rightarrow> string \<Rightarrow> string \<Rightarrow> ('h \<times> groupdict) option py_result" where
  "match_route [] method path = Returns None"
| "match_route ((pattern, meths, handler, original_path) # rs) method path =
     (if method \<in> set meths then
        (case re_match pattern path of
           Returns (Some gd) \<Rightarrow> Returns (Some (handler, gd))
         | Returns None \<Rightarrow> match_route rs method path
         | Raises e \<Rightarrow> Raises e
         | Unmodelled \<Rightarrow> Unmodelled)
      else match_route rs method path)"

subsection \<open>RiftHandler: dispatching a request\<close>

text \<open>
  What the handler does is recorded as a list of actions: calls of host functions
  through the interpreter, and the calls of \<^verbatim>\<open>_send_response\<close>, \<^verbatim>\<open>_send_error\<close> and
  \<^verbatim>\<open>_serve_static\<close> with their arguments.
\<close>

datatype 'h action =
  Call 'h | SendResponse pyval | SendError nat pyval | ServeStatic string string

text \<open>
  The environment of a request, as far as the source does not fix it:
  \<^item> \<open>call\<close> is \<^verbatim>\<open>interp._call(f, [request], None)\<close>: it returns a value or raises an exception
    with a message (\<open>Inl\<close>), and hands back the request, which the host function may have
    changed;
  \<^item> \<open>build_request\<close> is the assembly of the request dictionary from the matched
    parameters (reading the body, \<^verbatim>\<open>_parse_body\<close>, \<^verbatim>\<open>_parse_cookies\<close>), which may raise;
  \<^item> \<open>send_fails\<close> gives the message of the exception, if any, that \<^verbatim>\<open>_send_response\<close>
    raises for a value.
\<close>

record ('h, 'req) environment =
  call :: "'h \<Rightarrow> 'req \<Rightarrow> (pystr + pyval) \<times> 'req"
  build_request :: "groupdict \<Rightarrow> py_error + 'req"
  send_fails :: "pyval \<Rightarrow> pystr option"

text \<open>\<^verbatim>\<open>isinstance(v, dict) and 'status' in v\<close>.\<close>

fun carries_status :: "pyval \<Rightarrow> bool" where
  "carries_status (PDict kvs) = (lit ''status'' \<in> fst ` set kvs)"
| "carries_status v = False"

definition error_body :: "pystr \<Rightarrow> pyval" where
  "error_body message = PDict [(lit ''error'', PStr message)]"

text \<open>
  \<^verbatim>\<open>self._send_response(v)\<close> inside a \<^verbatim>\<open>try\<close> whose handler sends a 500 with the message.
\<close>

definition try_send_response :: "('h, 'req) environment \<Rightarrow> pyval \<Rightarrow> 'h action list" where
  "try_send_response env v =
     (case send_fails env v of
        None \<Rightarrow> [SendResponse v]
      | Some message \<Rightarrow> [SendResponse v, SendError 500 (error_body message)])"

text \<open>
  The middleware loop. The result is the list of actions and, when no middleware has
  ended the request, the request to hand to the handler.
\<close>

fun run_middleware ::
  "('h, 'req) environment \<Rightarrow> 'h list \<Rightarrow> 'req \<Rightarrow> 'h action list \<times> 'req option" where
  "run_middleware env [] request = ([], Some request)"
| "run_middleware env (mw # mws) request =
     (case call env mw request of
        (Inl message, request') \<Rightarrow> ([Call mw, SendError 500 (error_body message)], None)
      | (Inr mw_result, request') \<Rightarrow>
          if mw_result \<noteq> PNone \<and> carries_status mw_result
          then (Call mw # try_send_response env mw_result, None)
          else (case run_middleware env mws request' of
                  (actions, r) \<Rightarrow> (Call mw # actions, r)))"

text \<open>
  What it means that a list of middleware lets a request pass, stated apart from the loop
  above: each one is called with the request the one before it left, none raises, and
  none returns a dictionary with a \<^verbatim>\<open>status\<close> key; \<open>final\<close> is the request the last one
  leaves.
\<close>

fun passes_all :: "('h, 'req) environment \<Rightarrow> 'h list \<Rightarrow> 'req \<Rightarrow> 'req \<Rightarrow> bool" where
  "passes_all env [] request final = (final = request)"
| "passes_all env (mw # mws) request final =
     (case call env mw request of
        (Inl message, request') \<Rightarrow> False
      | (Inr v, request') \<Rightarrow> \<not> carries_status v \<and> passes_all env mws request' final)"

definition call_handler :: "('h, 'req) environment \<Rightarrow> 'h \<Rightarrow> 'req \<Rightarrow> 'h action list" where
  "call_handler env handler request =
     (case call env handler request of
        (Inl message, request') \<Rightarrow> [Call handler, SendError 500 (error_body message)]
      | (Inr response, request') \<Rightarrow> Call handler # try_send_response env response)"

text \<open>The static mounts, in the order of the dictionary; \<^verbatim>\<open>lstrip('/')\<close> on the rest.\<close>

fun find_static :: "(string \<times> string) list \<Rightarrow> string \<Rightarrow> (string \<times> string) option" where
  "find_static [] path = None"
| "find_static ((url_path, directory) # ms) path =
     (if take (length url_path) path = url_path
      then Some (directory, dropWhile (\<lambda>c. c = CHR ''/'') (drop (length url_path) path))
      else find_static ms path)"

text \<open>
  \<^verbatim>\<open>_handle_request\<close>, from the parsed path on. An exception that nothing catches (from
  the pattern of a route, from building the request) ends it with \<open>Raises\<close>.
\<close>

definition handle_request ::
  "('h, 'req) environment \<Rightarrow> 'h server \<Rightarrow> string \<Rightarrow> string \<Rightarrow> 'h action list py_result" where
  "handle_request env self method path =
     (case find_static (static_routes self) path of
        Some (directory, file_path) \<Rightarrow> Returns [ServeStatic directory file_path]
      | None \<Rightarrow>
          (case match_route (routes self) method path of
             Raises e \<Rightarrow> Raises e
           | Unmodelled \<Rightarrow> Unmodelled
           | Returns None \<Rightarrow> Returns [SendError 404 (error_body (lit ''Not found''))]
           | Returns (Some (handler, params)) \<Rightarrow>
               (case build_request env params of
                  Inl e \<Rightarrow> Raises e
                | Inr request \<Rightarrow>
                    (case run_middleware env (middleware self) request of
                       (actions, None) \<Rightarrow> Returns actions
                     | (actions, Some request') \<Rightarrow>
                         Returns (actions @ call_handler env handler request')))))"

text \<open>
  \<^verbatim>\<open>_send_error(status, body)\<close> writes the status line, one header and the JSON text of
  the body; \<^verbatim>\<open>json.dumps(body).encode()\<close> is the argument \<open>dumps\<close>.
\<close>

record wire_response =
  wire_status :: nat
  wire_headers :: "(string \<times> string) list"
  wire_body :: "byte list"

definition send_error :: "(pyval \<Rightarrow> byte list) \<Rightarrow> nat \<Rightarrow> pyval \<Rightarrow> wire_response" where
  "send_error dumps status body =
     \<lparr>wire_status = status,
      wire_headers = [(''Content-Type'', ''application/json'')],
      wire_body = dumps body\<rparr>"

subsection \<open>Request bodies\<close>

text \<open>
  Operations of \<^verbatim>\<open>str\<close> and \<^verbatim>\<open>bytes\<close> that the body parser uses: \<^verbatim>\<open>sub in s\<close>,
  \<^verbatim>\<open>s.find(sub)\<close>, \<^verbatim>\<open>s.split(sep)\<close> for a separator that is not empty, and the test whether
  \<^verbatim>\<open>s.strip()\<close> is empty.
\<close>

fun contains :: "'a list \<Rightarrow> 'a list \<Rightarrow> bool" where
  "contains sub [] = (sub = [])"
| "contains sub (x # xs) = (take (length sub) (x # xs) = sub \<or> contains sub xs)"

fun find_sub :: "'a list \<Rightarrow> 'a list \<Rightarrow> nat option" where
  "find_sub sub [] = (if sub = [] then Some 0 else None)"
| "find_sub sub (x # xs) =
     (if take (length sub) (x # xs) = sub then Some 0 else map_option Suc (find_sub sub xs))"

function split_from :: "'a list \<Rightarrow> 'a list \<Rightarrow> 'a list \<Rightarrow> 'a list list" where
  "split_from sep piece [] = [piece]"
| "split_from sep piece (x # xs) =
     (if sep \<noteq> [] \<and> take (length sep) (x # xs) = sep
      then piece # split_from sep [] (drop (length sep) (x # xs))
      else split_from sep (piece @ [x]) xs)"
  by pat_completeness auto
termination
  by (relation "measure (\<lambda>(sep, piece, s). length s)") auto

definition split :: "'a list \<Rightarrow> 'a list \<Rightarrow> 'a list list" where
  "split s sep = split_from sep [] s"

definition is_space :: "byte \<Rightarrow> bool" where
  "is_space b = (b = 9 \<or> b = 10 \<or> b = 11 \<or> b = 12 \<or> b = 13 \<or> b = 32)"

text \<open>
  \<^verbatim>\<open>re.search\<close> for a pattern of the shape literal, group of one or more characters of a
  class, literal: the leftmost place where the first literal stands, the longest run of
  the class behind it is not empty and the closing literal follows. The result is the
  group.
\<close>

fun search_group :: "'a list \<Rightarrow> ('a \<Rightarrow> bool) \<Rightarrow> 'a list \<Rightarrow> 'a list \<Rightarrow> 'a list option" where
  "search_group opening cls closing [] = None"
| "search_group opening cls closing (x # xs) =
     (let rest = drop (length opening) (x # xs) in
      if take (length opening) (x # xs) = opening \<and> takeWhile cls rest \<noteq> []
         \<and> take (length closing) (dropWhile cls rest) = closing
      then Some (takeWhile cls rest)
      else search_group opening cls closing xs)"

definition dquote :: nat where
  "dquote = 0x22"

text \<open>
  One part of a multipart body, inside the loop of \<^verbatim>\<open>_parse_multipart\<close>. The state of the
  loop is the dictionary \<open>result\<close> and the list \<open>files\<close>. The headers of the part are
  decoded strictly, so bytes that are not UTF-8 raise there.
\<close>

definition parse_part ::
  "byte list \<Rightarrow> (pystr \<times> pyval) list \<times> pyval list
     \<Rightarrow> py_error + (pystr \<times> pyval) list \<times> pyval list" where
  "parse_part part st =
     (case st of (result, files) \<Rightarrow>
        (if list_all is_space part then Inr (result, files)
         else
           (case find_sub [13, 10, 13, 10] part of
              None \<Rightarrow> Inr (result, files)
            | Some header_end \<Rightarrow>
                (case utf8_decode (take header_end part) of
                   Inl e \<Rightarrow> Inl e
                 | Inr hdrs \<Rightarrow>
                     (let content =
                        take (length part - 2 - (header_end + 4)) (drop (header_end + 4) part)
                      in
                        (case search_group (lit ''name='' @ [dquote]) (\<lambda>c. c \<noteq> dquote) [dquote] hdrs of
                           None \<Rightarrow> Inr (result, files)
                         | Some name \<Rightarrow>
                             (case search_group (lit ''filename='' @ [dquote]) (\<lambda>c. c \<noteq> dquote)
                                     [dquote] hdrs of
                                Some filename \<Rightarrow>
                                  (let file_type =
                                     (case search_group (lit ''Content-Type: '')
                                             (\<lambda>c. c \<noteq> 13 \<and> c \<noteq> 10) [] hdrs of
                                        Some t \<Rightarrow> t
                                      | None \<Rightarrow> lit ''application/octet-stream'')
                                   in Inr (result,
                                           files @ [PDict [(lit ''fieldname'', PStr name),
                                                           (lit ''filename'', PStr filename),
                                                           (lit ''content'', PBytes content),
                                                           (lit ''content_type'', PStr file_type),
                                                           (lit ''size'', PInt (int (length content)))]]))
                              | None \<Rightarrow>
                                  Inr (dict_set result name (PStr (utf8_decode_replace content)),
                                       files))))))))"

fun parse_parts ::
  "byte list list \<Rightarrow> (pystr \<times> pyval) list \<times> pyval list
     \<Rightarrow> py_error + (pystr \<times> pyval) list \<times> pyval list" where
  "parse_parts [] st = Inr st"
| "parse_parts (part # parts) st =
     (case parse_part part st of Inl e \<Rightarrow> Inl e | Inr st' \<Rightarrow> parse_parts parts st')"

text \<open>
  \<^verbatim>\<open>_parse_multipart\<close>. The boundary is taken from the content type, a string of the
  request headers; \<^verbatim>\<open>('--' + boundary).encode()\<close> is its UTF-8 encoding.
  \<^verbatim>\<open>body.split(boundary)[1:-1]\<close> drops the first and the last piece.
\<close>

definition parse_multipart :: "string \<Rightarrow> byte list \<Rightarrow> py_error + pyval" where
  "parse_multipart content_type body =
     (case search_group ''boundary='' (\<lambda>c. c \<noteq> CHR '';'') [] content_type of
        None \<Rightarrow> Inr (PDict [])
      | Some b \<Rightarrow>
          (case utf8_encode (lit (''--'' @ b)) of
             Inl e \<Rightarrow> Inl e
           | Inr boundary \<Rightarrow>
               (case parse_parts (butlast (tl (split body boundary))) ([], []) of
                  Inl e \<Rightarrow> Inl e
                | Inr (result, files) \<Rightarrow>
                    Inr (PDict (if files \<noteq> [] then dict_set result (lit ''_files'') (PList files)
                                else result)))))"

text \<open>
  \<^verbatim>\<open>_parse_body\<close>. \<^verbatim>\<open>json.loads\<close> is the argument \<open>loads\<close>, with \<open>None\<close> for a
  \<^verbatim>\<open>JSONDecodeError\<close>, the only exception the source catches; \<^verbatim>\<open>parse_qs\<close> is the argument
  of that name, the items of the dictionary it returns. Only the last branch decodes
  with \<^verbatim>\<open>errors='replace'\<close>.
\<close>

definition form_value :: "pystr list \<Rightarrow> pyval" where
  "form_value v = (if length v = 1 then PStr (v ! 0) else PList (map PStr v))"

definition parse_body ::
  "(pystr \<Rightarrow> pyval option) \<Rightarrow> (pystr \<Rightarrow> (pystr \<times> pystr list) list)
     \<Rightarrow> string \<Rightarrow> byte list \<Rightarrow> py_error + pyval" where
  "parse_body loads parse_qs content_type body =
     (if body = [] then Inr (PDict [])
      else if contains ''application/json'' content_type then
        (case utf8_decode body of
           Inl e \<Rightarrow> Inl e
         | Inr s \<Rightarrow> (case loads s of None \<Rightarrow> Inr (PDict []) | Some v \<Rightarrow> Inr v))
      else if contains ''application/x-www-form-urlencoded'' content_type then
        (case utf8_decode body of
           Inl e \<Rightarrow> Inl e
         | Inr s \<Rightarrow> Inr (PDict (map (\<lambda>(k, v). (k, form_value v)) (parse_qs s))))
      else if contains ''multipart/form-data'' content_type then parse_multipart content_type body
      else Inr (PStr (utf8_decode_replace body)))"

section \<open>Properties\<close>

subsection \<open>UTF-8: decoding inverts encoding\<close>

lemma unat_byte: "n < 256 \<Longrightarrow> unat (of_nat n :: byte) = n"
  by (simp add: unat_of_nat)

lemma mod64: "y < 64 \<Longrightarrow> (128 + y) mod 64 = (y::nat)"
proof -
  assume y: "y < 64"
  have "(128 + y) mod 64 = (y + 2 * 64) mod 64" by (simp add: add.commute)
  also have "\<dots> = y mod 64" by (rule mod_mult_self1)
  finally show ?thesis using y by simp
qed

lemma digits64:
  fixes cp :: nat
  defines "q1 \<equiv> cp div 64" and "q2 \<equiv> cp div 4096" and "q3 \<equiv> cp div 262144"
  shows "cp = q1 * 64 + cp mod 64" "q1 = q2 * 64 + cp div 64 mod 64"
    "q2 = q3 * 64 + cp div 4096 mod 64"
    "cp mod 64 < 64" "cp div 64 mod 64 < 64" "cp div 4096 mod 64 < 64"
proof -
  have a: "cp div 4096 = cp div 64 div 64" by (simp add: div_mult2_eq)
  have b: "cp div 262144 = cp div 4096 div 64" by (simp add: div_mult2_eq)
  show "cp = q1 * 64 + cp mod 64" by (simp add: q1_def)
  show "q1 = q2 * 64 + cp div 64 mod 64" by (simp add: q1_def q2_def a)
  show "q2 = q3 * 64 + cp div 4096 mod 64" by (simp add: q3_def q2_def b)
qed simp_all

lemma compose3: "((cp::nat) div 4096 * 64 + cp div 64 mod 64) * 64 + cp mod 64 = cp"
  using digits64(1,2) [of cp] by presburger

lemma compose4:
  "(((cp::nat) div 262144 * 64 + cp div 4096 mod 64) * 64 + cp div 64 mod 64) * 64 + cp mod 64 = cp"
  using digits64(1,2,3) [of cp] by metis

lemma utf8_next_1:
  assumes "unat b0 < 0x80"
  shows "utf8_next b0 ms = (Some (unat b0), 1)"
  using assms by (simp add: utf8_next_def)

lemma utf8_next_2:
  assumes "unat b0 = 0xC0 + x" "2 \<le> x" "x < 32" "unat b1 = 0x80 + y" "y < 64"
  shows "utf8_next b0 (b1 # ms) = (Some (x * 64 + y), 2)"
  using assms by (auto simp add: utf8_next_def cont_ranges_def lead_bits_def mod64)

lemma utf8_next_3:
  assumes "unat b0 = 0xE0 + x" "x < 16" "unat b1 = 0x80 + y" "y < 64" "unat b2 = 0x80 + z" "z < 64"
    "x = 0 \<Longrightarrow> 32 \<le> y" "x = 13 \<Longrightarrow> y < 32"
  shows "utf8_next b0 (b1 # b2 # ms) = (Some ((x * 64 + y) * 64 + z), 3)"
  using assms by (auto simp add: utf8_next_def cont_ranges_def lead_bits_def mod64)

lemma utf8_next_4:
  assumes "unat b0 = 0xF0 + x" "x \<le> 4" "unat b1 = 0x80 + y" "y < 64" "unat b2 = 0x80 + z" "z < 64"
    "unat b3 = 0x80 + w" "w < 64"
    "x = 0 \<Longrightarrow> 16 \<le> y" "x = 4 \<Longrightarrow> y < 16"
  shows "utf8_next b0 (b1 # b2 # b3 # ms) = (Some (((x * 64 + y) * 64 + z) * 64 + w), 4)"
  using assms by (auto simp add: utf8_next_def cont_ranges_def lead_bits_def mod64)

lemma utf8_next_encode_char:
  assumes "utf8_encode_char cp = Some bs"
  shows "bs \<noteq> [] \<and> utf8_next (hd bs) (tl bs @ ms) = (Some cp, length bs)"
proof -
  consider (a) "cp < 0x80"
    | (b) "0x80 \<le> cp" "cp < 0x800"
    | (c) "0x800 \<le> cp" "cp < 0x10000" "\<not> (0xD800 \<le> cp \<and> cp \<le> 0xDFFF)"
    | (d) "0x10000 \<le> cp" "cp < 0x110000"
    using assms by (auto simp: utf8_encode_char_def split: if_splits)
  then show ?thesis
  proof cases
    case a
    from assms a have bs: "bs = [of_nat cp]"
      by (simp add: utf8_encode_char_def)
    have "unat (of_nat cp :: byte) = cp" using a by (intro unat_byte) simp
    then show ?thesis using a utf8_next_1 [of "of_nat cp" ms] by (simp add: bs)
  next
    case b
    from assms b have bs: "bs = [of_nat (0xC0 + cp div 64), of_nat (0x80 + cp mod 64)]"
      by (simp add: utf8_encode_char_def)
    have u0: "unat (of_nat (0xC0 + cp div 64) :: byte) = 0xC0 + cp div 64"
      using b digits64 [of cp] by (intro unat_byte) linarith
    have u1: "unat (of_nat (0x80 + cp mod 64) :: byte) = 0x80 + cp mod 64"
      by (intro unat_byte) simp
    have r: "2 \<le> cp div 64" "cp div 64 < 32" "cp mod 64 < 64" using b digits64 [of cp] by linarith+
    have "cp div 64 * 64 + cp mod 64 = cp" by simp
    then show ?thesis using utf8_next_2 [OF u0 r(1,2) u1 r(3), of ms] by (simp add: bs)
  next
    case c
    from assms c have bs: "bs = [of_nat (0xE0 + cp div 4096), of_nat (0x80 + cp div 64 mod 64), of_nat (0x80 + cp mod 64)]"
      by (auto simp: utf8_encode_char_def)
    have u0: "unat (of_nat (0xE0 + cp div 4096) :: byte) = 0xE0 + cp div 4096"
      using c digits64 [of cp] by (intro unat_byte) linarith
    have u1: "unat (of_nat (0x80 + cp div 64 mod 64) :: byte) = 0x80 + cp div 64 mod 64"
      by (intro unat_byte) simp
    have u2: "unat (of_nat (0x80 + cp mod 64) :: byte) = 0x80 + cp mod 64"
      by (intro unat_byte) simp
    have r: "cp div 4096 < 16" "cp div 64 mod 64 < 64" "cp mod 64 < 64" using c digits64 [of cp] by linarith+
    have 3: "cp div 4096 = 0 \<Longrightarrow> 32 \<le> cp div 64 mod 64" using c digits64 [of cp] by linarith
    have 4: "cp div 4096 = 13 \<Longrightarrow> cp div 64 mod 64 < 32" using c digits64 [of cp] by linarith
    have 5: "(cp div 4096 * 64 + cp div 64 mod 64) * 64 + cp mod 64 = cp" by (rule compose3)
    show ?thesis using utf8_next_3 [OF u0 r(1) u1 r(2) u2 r(3) 3 4, of ms] 5 by (simp add: bs)
  next
    case d
    from assms d have bs: "bs = [of_nat (0xF0 + cp div 262144), of_nat (0x80 + cp div 4096 mod 64), of_nat (0x80 + cp div 64 mod 64), of_nat (0x80 + cp mod 64)]"
      by (auto simp: utf8_encode_char_def)
    have u0: "unat (of_nat (0xF0 + cp div 262144) :: byte) = 0xF0 + cp div 262144"
      using d digits64 [of cp] by (intro unat_byte) linarith
    have u1: "unat (of_nat (0x80 + cp div 4096 mod 64) :: byte) = 0x80 + cp div 4096 mod 64"
      by (intro unat_byte) simp
    have u2: "unat (of_nat (0x80 + cp div 64 mod 64) :: byte) = 0x80 + cp div 64 mod 64"
      by (intro unat_byte) simp
    have u3: "unat (of_nat (0x80 + cp mod 64) :: byte) = 0x80 + cp mod 64"
      by (intro unat_byte) simp
    have r: "cp div 262144 \<le> 4" "cp div 4096 mod 64 < 64" "cp div 64 mod 64 < 64" "cp mod 64 < 64" using d digits64 [of cp] by linarith+
    have 3: "cp div 262144 = 0 \<Longrightarrow> 16 \<le> cp div 4096 mod 64" using d digits64 [of cp] by linarith
    have 4: "cp div 262144 = 4 \<Longrightarrow> cp div 4096 mod 64 < 16" using d digits64 [of cp] by linarith
    have 5: "((cp div 262144 * 64 + cp div 4096 mod 64) * 64 + cp div 64 mod 64) * 64 + cp mod 64 = cp" by (rule compose4)
    show ?thesis using utf8_next_4 [OF u0 r(1) u1 r(2) u2 r(3) u3 r(4) 3 4, of ms] 5 by (simp add: bs)
  qed
qed

lemma utf8_decode_append:
  assumes "utf8_encode_char cp = Some bs"
  shows "utf8_decode (bs @ ms) = (case utf8_decode ms of Inl e \<Rightarrow> Inl e | Inr cps \<Rightarrow> Inr (cp # cps))"
proof -
  from utf8_next_encode_char [OF assms, of ms]
  obtain b rest where bs: "bs = b # rest" and n: "utf8_next b (rest @ ms) = (Some cp, length bs)"
    by (cases bs) auto
  show ?thesis using n by (simp add: bs)
qed

lemma utf8_roundtrip: "utf8_encode s = Inr bs \<Longrightarrow> utf8_decode bs = Inr s"
proof (induction s arbitrary: bs)
  case Nil
  then show ?case by simp
next
  case (Cons cp cps)
  then show ?case
    by (auto split: option.splits sum.splits simp: utf8_decode_append)
qed

text \<open>Every string of Unicode scalar values has an encoding.\<close>

lemma utf8_encode_scalar:
  "list_all (\<lambda>cp. cp < 0xD800 \<or> (0xDFFF < cp \<and> cp < 0x110000)) s \<Longrightarrow> \<exists>bs. utf8_encode s = Inr bs"
proof (induction s)
  case Nil
  then show ?case by simp
next
  case (Cons cp cps)
  then obtain rest where "utf8_encode cps = Inr rest" by auto
  moreover have "\<exists>bs. utf8_encode_char cp = Some bs"
    using Cons.prems by (auto simp: utf8_encode_char_def)
  ultimately show ?case by auto
qed

subsection \<open>WebSocket frames\<close>


lemma length_big_endian: "length (big_endian k n) = k"
  by (induction k arbitrary: n) auto

lemma from_bytes_snoc: "from_bytes (bs @ [b]) = from_bytes bs * 256 + unat b"
  by (simp add: from_bytes_def)

lemma from_bytes_big_endian: "n < 256 ^ k \<Longrightarrow> from_bytes (big_endian k n) = n"
proof (induction k arbitrary: n)
  case 0
  then show ?case by (simp add: from_bytes_def)
next
  case (Suc k)
  have "n div 256 < 256 ^ k" using Suc.prems by (simp add: less_mult_imp_div_less mult.commute)
  then have "from_bytes (big_endian k (n div 256)) = n div 256" by (rule Suc.IH)
  moreover have "unat (of_nat (n mod 256) :: byte) = n mod 256" by (intro unat_byte) simp
  ultimately show ?case by (simp add: from_bytes_snoc)
qed

lemma apply_mask_length: "length (apply_mask key bs) = length bs"
  by (simp add: apply_mask_def)

lemma apply_mask_nth: "j < length bs \<Longrightarrow> apply_mask key bs ! j = bs ! j XOR key ! (j mod 4)"
  by (simp add: apply_mask_def nth_enumerate_eq)

lemma apply_mask_involution: "apply_mask key (apply_mask key bs) = bs"
  by (rule nth_equalityI) (simp_all add: apply_mask_length apply_mask_nth xor.assoc)

lemma unmask_loop:
  "i \<le> n \<Longrightarrow> length xs = n \<Longrightarrow> length key = 4 \<Longrightarrow>
   unmask i n key xs = Some (take i xs @ map (\<lambda>(j, b). b XOR key ! (j mod 4)) (enumerate i (drop i xs)))"
proof (induction "n - i" arbitrary: i xs)
  case 0
  then show ?case by (subst unmask.simps) simp
next
  case (Suc d)
  then have lt: "i < n" by simp
  let ?v = "xs ! i XOR key ! (i mod 4)"
  have step: "unmask i n key xs = unmask (Suc i) n key (xs[i := ?v])"
    using lt Suc.prems by (subst unmask.simps) simp
  have ih: "unmask (Suc i) n key (xs[i := ?v]) =
      Some (take (Suc i) (xs[i := ?v]) @ map (\<lambda>(j, b). b XOR key ! (j mod 4)) (enumerate (Suc i) (drop (Suc i) (xs[i := ?v]))))"
    using Suc.hyps(2) lt Suc.prems by (intro Suc.hyps(1)) simp_all
  have t: "take (Suc i) (xs[i := ?v]) = take i xs @ [?v]"
    using lt Suc.prems by (simp add: take_Suc_conv_app_nth)
  have "i < length xs" using lt Suc.prems by simp
  then have d: "drop i xs = xs ! i # drop (Suc i) xs"
    by (rule Cons_nth_drop_Suc [symmetric])
  have e: "enumerate i (xs ! i # drop (Suc i) xs) = (i, xs ! i) # enumerate (Suc i) (drop (Suc i) xs)"
    by simp
  show ?case unfolding step ih t d e by simp
qed

lemma unmask_apply_mask:
  assumes "length bs = n" "length key = 4"
  shows "unmask 0 n key (apply_mask key bs) = Some bs"
proof -
  have "unmask 0 n key (apply_mask key bs) = Some (apply_mask key (apply_mask key bs))"
    using assms unmask_loop [of 0 n "apply_mask key bs" key]
    by (simp add: apply_mask_length) (simp add: apply_mask_def)
  then show ?thesis by (simp add: apply_mask_involution)
qed


lemma low7: fixes x :: byte assumes "unat x < 128" shows "(x OR 0x80) AND 0x7F = x"
proof -
  have "x < 2 ^ 7" using assms by (simp add: word_less_nat_alt)
  then have "x AND mask 7 = x" by (rule less_mask_eq)
  moreover have "(x OR 0x80) AND 0x7F = x AND 0x7F"
    by (simp add: bit.conj_disj_distrib2)
  ultimately show ?thesis by (simp add: mask_eq_exp_minus_1)
qed

lemma bit7: fixes x :: byte shows "(x OR 0x80) AND 0x80 \<noteq> 0"
proof
  assume "(x OR 0x80) AND 0x80 = 0"
  then have "bit ((x OR 0x80) AND (0x80 :: byte)) 7 = bit (0 :: byte) 7" by simp
  then show False by (simp add: bit_simps)
qed

lemma mask_frame_short:
  "b1 \<noteq> 126 \<Longrightarrow> b1 \<noteq> 127 \<Longrightarrow>
   mask_frame key (b0 # b1 # rest) = b0 # (b1 OR 0x80) # key @ apply_mask key rest"
  by (simp add: mask_frame_def)

lemma mask_frame_medium:
  "length be = 2 \<Longrightarrow>
   mask_frame key (b0 # 126 # be @ rest) = b0 # 0xFE # be @ key @ apply_mask key rest"
  by (simp add: mask_frame_def)

lemma mask_frame_long:
  "length be = 8 \<Longrightarrow>
   mask_frame key (b0 # 127 # be @ rest) = b0 # 0xFF # be @ key @ apply_mask key rest"
  by (simp add: mask_frame_def)

lemma receive_masked_frame:
  assumes lb: "length_bytes n = Inr lb"
    and n: "length payload = n" "n \<le> maxsize"
    and key: "length key = 4"
    and dec: "utf8_decode payload = Inr s"
  shows "WebSocketConnection_receive (r\<lparr>rfile := mask_frame key (0x81 # lb @ payload)\<rparr>)
           = (Some s, r\<lparr>rfile := []\<rparr>)"
proof -
  have um: "unmask 0 n key (apply_mask key payload) = Some payload"
    using n(1) key by (rule unmask_apply_mask)
  have ml: "length (apply_mask key payload) = n" by (simp add: apply_mask_length n)
  have mx: "n < 256 ^ 8" using n(2) by (simp add: maxsize_def)
  consider (short) "n \<le> 125" | (medium) "125 < n" "n \<le> 65535" | (long) "65535 < n"
    by linarith
  then show ?thesis
  proof cases
    case short
    define b1 :: byte where "b1 = of_nat n"
    have lbe: "lb = [b1]" using lb short by (simp add: length_bytes_def b1_def)
    have u: "unat b1 = n" unfolding b1_def using short by (intro unat_byte) simp
    have ne: "b1 \<noteq> 126" "b1 \<noteq> 127"
      using u short by auto
    have l7: "(b1 OR 0x80) AND 0x7F = b1"
      using u short by (intro low7) simp
    have fr: "mask_frame key (0x81 # lb @ payload)
        = 0x81 # (b1 OR 0x80) # key @ apply_mask key payload"
      unfolding lbe using ne by (simp add: mask_frame_short)
    show ?thesis
      unfolding fr using short n(2) key um ml dec u
      by (simp add: WebSocketConnection_receive_def rfile_read_def read_length_def l7 bit7)
  next
    case medium
    define be where "be = big_endian 2 n"
    have lbe: "lb = 126 # be" using lb medium by (simp add: length_bytes_def to_bytes_def be_def)
    have bl: "length be = 2" by (simp add: be_def length_big_endian)
    have fb: "from_bytes be = n" unfolding be_def using medium by (intro from_bytes_big_endian) simp
    have fr: "mask_frame key (0x81 # lb @ payload)
        = 0x81 # 0xFE # be @ key @ apply_mask key payload"
      unfolding lbe using bl by (simp add: mask_frame_medium)
    show ?thesis
      unfolding fr using medium n(2) key um ml dec bl fb
      by (simp add: WebSocketConnection_receive_def rfile_read_def read_length_def)
  next
    case long
    define be where "be = big_endian 8 n"
    have lbe: "lb = 127 # be" using lb long mx by (simp add: length_bytes_def to_bytes_def be_def)
    have bl: "length be = 8" by (simp add: be_def length_big_endian)
    have fb: "from_bytes be = n" unfolding be_def using mx by (rule from_bytes_big_endian)
    have fr: "mask_frame key (0x81 # lb @ payload)
        = 0x81 # 0xFF # be @ key @ apply_mask key payload"
      unfolding lbe using bl by (simp add: mask_frame_long)
    show ?thesis
      unfolding fr using long n(2) key um ml dec bl fb
      by (simp add: WebSocketConnection_receive_def rfile_read_def read_length_def)
  qed
qed


lemma big_endian_2: "big_endian 2 n = [of_nat (n div 256 mod 256), of_nat (n mod 256)]"
proof -
  have "(2::nat) = Suc (Suc 0)" by simp
  then show ?thesis by (simp only: big_endian.simps) simp
qed

lemma big_endian_8:
  "big_endian 8 n =
     [of_nat (n div 256 div 256 div 256 div 256 div 256 div 256 div 256 mod 256),
      of_nat (n div 256 div 256 div 256 div 256 div 256 div 256 mod 256),
      of_nat (n div 256 div 256 div 256 div 256 div 256 mod 256),
      of_nat (n div 256 div 256 div 256 div 256 mod 256),
      of_nat (n div 256 div 256 div 256 mod 256),
      of_nat (n div 256 div 256 mod 256),
      of_nat (n div 256 mod 256),
      of_nat (n mod 256)]"
proof -
  have "(8::nat) = Suc (Suc (Suc (Suc (Suc (Suc (Suc (Suc 0)))))))" by simp
  then show ?thesis by (simp only: big_endian.simps) simp
qed

lemma length_bytes_10: "length_bytes 10 = Inr [10]"
  by (simp add: length_bytes_def)

lemma length_bytes_200: "length_bytes 200 = Inr [126, 0, 200]"
  by (simp add: length_bytes_def to_bytes_def big_endian_2)

lemma length_bytes_70000: "length_bytes 70000 = Inr [127, 0, 0, 0, 0, 0, 1, 17, 112]"
  by (simp add: length_bytes_def to_bytes_def big_endian_8)

lemma utf8_encode_replicate_a: "utf8_encode (replicate n 0x61) = Inr (replicate n 0x61)"
  by (induction n) (simp_all add: utf8_encode_char_def)

text \<open>
  Claim C4. A text message that \<^verbatim>\<open>send\<close> encodes as a server frame is what \<^verbatim>\<open>receive\<close>
  returns for the masked client frame of the same payload, whatever the four bytes of the
  masking key are, for each of the three length encodings. The message is any string
  that UTF-8 can encode (\<open>utf8_encode s = Inr payload\<close>) into at most \<^verbatim>\<open>sys.maxsize\<close>
  bytes; the sending connection is open and its output can be written.
\<close>

theorem websocket_text_roundtrip:
  assumes "utf8_encode s = Inr payload"
    and "length payload \<le> maxsize"
    and "length key = 4"
    and "connected c" and "\<not> wfile_broken c"
  shows "\<exists>lb. length_bytes (length payload) = Inr lb
     \<and> WebSocketConnection_send c s = Inr (True, c\<lparr>wfile := wfile c @ 0x81 # lb @ payload\<rparr>)
     \<and> WebSocketConnection_receive (r\<lparr>rfile := mask_frame key (0x81 # lb @ payload)\<rparr>)
           = (Some s, r\<lparr>rfile := []\<rparr>)"
proof -
  have "length payload < 256 ^ 8" using assms(2) by (simp add: maxsize_def)
  then have "\<exists>lb. length_bytes (length payload) = Inr lb"
    by (cases "length payload \<le> 65535") (simp_all add: length_bytes_def to_bytes_def)
  then obtain lb where lb: "length_bytes (length payload) = Inr lb" ..
  have dec: "utf8_decode payload = Inr s" using assms(1) by (rule utf8_roundtrip)
  have "WebSocketConnection_send c s = Inr (True, c\<lparr>wfile := wfile c @ 0x81 # lb @ payload\<rparr>)"
    using assms(1,4,5) lb by (simp add: WebSocketConnection_send_def)
  moreover have "WebSocketConnection_receive (r\<lparr>rfile := mask_frame key (0x81 # lb @ payload)\<rparr>)
           = (Some s, r\<lparr>rfile := []\<rparr>)"
    using lb _ assms(2,3) dec by (rule receive_masked_frame) simp
  ultimately show ?thesis using lb by blast
qed

theorem websocket_text_roundtrip_witness:
  "WebSocketConnection_receive
      \<lparr>connected = True, rfile = mask_frame [1, 2, 3, 4] (0x81 # [10] @ replicate 10 0x61),
       wfile = [], wfile_broken = False\<rparr>
     = (Some (replicate 10 0x61), \<lparr>connected = True, rfile = [], wfile = [], wfile_broken = False\<rparr>)
   \<and> WebSocketConnection_receive
      \<lparr>connected = True, rfile = mask_frame [1, 2, 3, 4] (0x81 # [126, 0, 200] @ replicate 200 0x61),
       wfile = [], wfile_broken = False\<rparr>
     = (Some (replicate 200 0x61), \<lparr>connected = True, rfile = [], wfile = [], wfile_broken = False\<rparr>)
   \<and> WebSocketConnection_receive
      \<lparr>connected = True,
       rfile = mask_frame [1, 2, 3, 4] (0x81 # [127, 0, 0, 0, 0, 0, 1, 17, 112] @ replicate 70000 0x61),
       wfile = [], wfile_broken = False\<rparr>
     = (Some (replicate 70000 0x61), \<lparr>connected = True, rfile = [], wfile = [], wfile_broken = False\<rparr>)"
proof -
  let ?c = "\<lparr>connected = True, rfile = [], wfile = [], wfile_broken = False\<rparr>"
  have k: "length [1, 2, 3, 4 :: byte] = 4" by simp
  have c: "connected ?c" "\<not> wfile_broken ?c" by simp_all
  have m: "(10::nat) \<le> maxsize" "(200::nat) \<le> maxsize" "(70000::nat) \<le> maxsize"
    by (simp_all add: maxsize_def)
  note w = websocket_text_roundtrip [OF utf8_encode_replicate_a _ k c, where r = ?c]
  show ?thesis
    using w [of 10] w [of 200] w [of 70000] m
    by (simp add: length_bytes_10 length_bytes_200 length_bytes_70000)
qed

subsection \<open>RateLimiter\<close>

text \<open>
  Claim C5. \<^verbatim>\<open>is_allowed(key)\<close> first prunes the timestamps of the key to those with
  \<open>now - t < window\<close>; it returns true, and appends \<open>now\<close>, exactly when the pruned
  list is shorter than \<^verbatim>\<open>max_requests\<close>; otherwise it returns false and the pruned list is
  what stays recorded. Other keys are untouched. With a maximum of 3 and a window of 60,
  four calls at one instant \<open>t\<close> give true, true, true, false, and a fifth call at any
  time from \<open>t + 60\<close> on gives true.
\<close>

theorem is_allowed_sliding_window:
  "prune rl key now = filter (\<lambda>t. now - t < real_of_int (window rl)) (requests_of rl key)
   \<and> fst (RateLimiter_is_allowed rl key now) = (int (length (prune rl key now)) < max_requests rl)
   \<and> requests_of (snd (RateLimiter_is_allowed rl key now)) key =
        (if int (length (prune rl key now)) < max_requests rl
         then prune rl key now @ [now] else prune rl key now)
   \<and> (\<forall>k. k \<noteq> key \<longrightarrow> requests (snd (RateLimiter_is_allowed rl key now)) k = requests rl k)
   \<and> fst (is_allowed_calls (RateLimiter_init 3 60) key [t, t, t, t]) = [True, True, True, False]
   \<and> (t + 60 \<le> t' \<longrightarrow>
        fst (is_allowed_calls (RateLimiter_init 3 60) key [t, t, t, t, t'])
          = [True, True, True, False, True])"
  by (simp add: RateLimiter_init_def RateLimiter_is_allowed_def prune_def requests_of_def Let_def)

theorem is_allowed_sliding_window_witness:
  "fst (RateLimiter_is_allowed (RateLimiter_init 1 60) ''a'' 7) = True
   \<and> requests (snd (RateLimiter_is_allowed (RateLimiter_init 1 60) ''a'' 7)) ''b'' = None
   \<and> fst (is_allowed_calls (RateLimiter_init 3 60) ''a'' [0, 0, 0, 0, 60])
          = [True, True, True, False, True]"
  using is_allowed_sliding_window [of "RateLimiter_init 1 60" "''a''" 7 0 60]
  by (simp add: RateLimiter_init_def prune_def requests_of_def)

subsection \<open>SessionStore\<close>

text \<open>
  Claim C6. \<^verbatim>\<open>get(id)\<close> returns nothing for an unknown id. For a known id whose idle time
  \<open>now - last_accessed\<close> exceeds the TTL it returns nothing and deletes the entry. Otherwise
  it returns the stored data and sets \<^verbatim>\<open>last_accessed\<close> to the current time. With a TTL of
  5, a session created at second 0 is gone at second 8, but is still there at second 8
  when it was read at second 4.
\<close>

theorem get_expires_or_refreshes:
  "(sessions st sid = None \<longrightarrow> SessionStore_get st sid now now' = (None, st))
   \<and> (sessions st sid = Some s \<and> now - last_accessed s > real_of_int (ttl st) \<longrightarrow>
        fst (SessionStore_get st sid now now') = None
        \<and> sessions (snd (SessionStore_get st sid now now')) sid = None)
   \<and> (sessions st sid = Some s \<and> \<not> now - last_accessed s > real_of_int (ttl st) \<longrightarrow>
        fst (SessionStore_get st sid now now') = Some (data s)
        \<and> sessions (snd (SessionStore_get st sid now now')) sid = Some (s\<lparr>last_accessed := now'\<rparr>))
   \<and> (\<forall>k. k \<noteq> sid \<longrightarrow> sessions (snd (SessionStore_get st sid now now')) k = sessions st k)
   \<and> (let st0 = snd (SessionStore_create (SessionStore_init 5) sid (Some d) 0 0) in
        fst (SessionStore_get st0 sid 8 8) = None
        \<and> fst (SessionStore_get (snd (SessionStore_get st0 sid 4 4)) sid 8 8) = Some d)"
  by (simp add: SessionStore_get_def SessionStore_create_def SessionStore_init_def Let_def
      split: option.splits)

theorem get_expires_or_refreshes_witness:
  "fst (SessionStore_get (SessionStore_init 5) ''x'' 1 1) = (None :: (string \<rightharpoonup> nat) option)
   \<and> fst (SessionStore_get
          (snd (SessionStore_create (SessionStore_init 5) ''x'' (Some [''u'' \<mapsto> (1::nat)]) 0 0))
          ''x'' 8 8) = None
   \<and> sessions (snd (SessionStore_get
          (snd (SessionStore_create (SessionStore_init 5) ''x'' (Some [''u'' \<mapsto> (1::nat)]) 0 0))
          ''x'' 4 4)) ''x''
        = Some \<lparr>data = [''u'' \<mapsto> 1], created_at = 0, last_accessed = 4\<rparr>"
proof -
  let ?st = "snd (SessionStore_create (SessionStore_init 5) ''x'' (Some [''u'' \<mapsto> (1::nat)]) 0 0)"
  let ?s = "\<lparr>data = [''u'' \<mapsto> (1::nat)], created_at = 0, last_accessed = 0\<rparr>"
  have s: "sessions ?st ''x'' = Some ?s"
    by (simp add: SessionStore_create_def SessionStore_init_def)
  have t: "ttl ?st = 5"
    by (simp add: SessionStore_create_def SessionStore_init_def)
  have "sessions (SessionStore_init 5 :: nat session_store) ''x'' = None"
    by (simp add: SessionStore_init_def)
  with get_expires_or_refreshes [where st = "SessionStore_init 5 :: nat session_store"
        and sid = "''x''" and now = 1 and now' = 1, THEN conjunct1]
  have 1: "fst (SessionStore_get (SessionStore_init 5 :: nat session_store) ''x'' 1 1) = None"
    by simp
  from get_expires_or_refreshes [where st = ?st and sid = "''x''" and s = ?s and now = 8
        and now' = 8, THEN conjunct2, THEN conjunct1] s t
  have 2: "fst (SessionStore_get ?st ''x'' 8 8) = None"
    by simp
  from get_expires_or_refreshes [where st = ?st and sid = "''x''" and s = ?s and now = 4
        and now' = 4, THEN conjunct2, THEN conjunct2, THEN conjunct1] s t
  have 3: "sessions (snd (SessionStore_get ?st ''x'' 4 4)) ''x''
      = Some \<lparr>data = [''u'' \<mapsto> 1], created_at = 0, last_accessed = 4\<rparr>"
    by simp
  from 1 2 3 show ?thesis by blast
qed

text \<open>
  Claim C9. For an id that is in the store, \<^verbatim>\<open>set(id, data)\<close> returns true, replaces the
  data and sets \<^verbatim>\<open>last_accessed\<close> to the current time, and \<^verbatim>\<open>destroy(id)\<close> returns true and
  removes the entry. Neither looks at the TTL: the statement has no condition on the idle
  time, so it covers an entry that \<^verbatim>\<open>get\<close> would have expired. After the \<^verbatim>\<open>set\<close>, a \<^verbatim>\<open>get\<close>
  within the TTL of that moment returns the new data.
\<close>

theorem set_and_destroy_ignore_expiry:
  assumes "sessions st sid = Some s"
  shows "fst (SessionStore_set st sid d now) = True
     \<and> sessions (snd (SessionStore_set st sid d now)) sid = Some (s\<lparr>data := d, last_accessed := now\<rparr>)
     \<and> ttl (snd (SessionStore_set st sid d now)) = ttl st
     \<and> fst (SessionStore_destroy st sid) = True
     \<and> sessions (snd (SessionStore_destroy st sid)) sid = None
     \<and> (t - now \<le> real_of_int (ttl st) \<longrightarrow>
          fst (SessionStore_get (snd (SessionStore_set st sid d now)) sid t t') = Some d)"
  using assms by (simp add: SessionStore_set_def SessionStore_destroy_def SessionStore_get_def)

theorem set_and_destroy_ignore_expiry_witness:
  "fst (SessionStore_get
          (snd (SessionStore_create (SessionStore_init 5) ''x'' (Some [''u'' \<mapsto> (1::nat)]) 0 0))
          ''x'' 100 100) = None
   \<and> fst (SessionStore_set
          (snd (SessionStore_create (SessionStore_init 5) ''x'' (Some [''u'' \<mapsto> (1::nat)]) 0 0))
          ''x'' [''u'' \<mapsto> 2] 100) = True
   \<and> fst (SessionStore_get (snd (SessionStore_set
          (snd (SessionStore_create (SessionStore_init 5) ''x'' (Some [''u'' \<mapsto> (1::nat)]) 0 0))
          ''x'' [''u'' \<mapsto> 2] 100)) ''x'' 101 101) = Some [''u'' \<mapsto> 2]
   \<and> fst (SessionStore_destroy
          (snd (SessionStore_create (SessionStore_init 5) ''x'' (Some [''u'' \<mapsto> (1::nat)]) 0 0))
          ''x'') = True"
proof -
  let ?st = "snd (SessionStore_create (SessionStore_init 5) ''x'' (Some [''u'' \<mapsto> (1::nat)]) 0 0)"
  let ?s = "\<lparr>data = [''u'' \<mapsto> (1::nat)], created_at = 0, last_accessed = 0\<rparr>"
  have "sessions ?st ''x'' = Some ?s"
    by (simp add: SessionStore_create_def SessionStore_init_def)
  from set_and_destroy_ignore_expiry [OF this, where d = "[''u'' \<mapsto> 2]" and now = 100
      and t = 101 and t' = 101]
  show ?thesis
    by (simp add: SessionStore_create_def SessionStore_init_def SessionStore_get_def)
qed

subsection \<open>CORSHandler\<close>

lemma digits_of_86400: "digits_of 86400 = ''86400''"
  by (simp add: digits_of.simps [of 86400] digits_of.simps [of 8640] digits_of.simps [of 864]
      digits_of.simps [of 86] digits_of.simps [of 8] digit_char_def)

text \<open>
  Claim C8, as stated, fails for an empty list of origins: no
  \<^verbatim>\<open>Access-Control-Allow-Origin\<close> header is emitted then, there being no first origin to
  fall back to. It also fails for a request origin that is the empty string: the test
  \<^verbatim>\<open>request_origin and ...\<close> treats it like a missing one, also when the empty string is
  in the list.
\<close>

theorem add_headers_no_fallback_counterexample:
  "add_headers (CORSHandler_init (OriginList []) None None False 86400) None
      ''Access-Control-Allow-Origin'' = None
   \<and> add_headers (CORSHandler_init (OriginList [''https://a.com'', '''']) None None False 86400)
      (Some '''') ''Access-Control-Allow-Origin'' = Some ''https://a.com''"
  by (simp add: add_headers_def allow_origin_def CORSHandler_init_def truthy_def or_default_def)

text \<open>
  Claim C8, amended. \<^verbatim>\<open>Access-Control-Allow-Origin\<close> is \<^verbatim>\<open>*\<close> if the list of origins holds
  the wildcard; else the request origin if that is a non-empty string of the list; else
  the first origin of the list if the list is not empty; an empty list gives no such
  header. The allow-methods, allow-headers and max-age headers are always there, and
  allow-credentials is there exactly when credentials are enabled. With the list
  \<^verbatim>\<open>["https://a.com"]\<close> and the request origin \<^verbatim>\<open>https://b.com\<close> the header is
  \<^verbatim>\<open>https://a.com\<close>.
\<close>

theorem add_headers_origin_choice:
  "(''*'' \<in> set (origins self) \<longrightarrow>
      add_headers self ro ''Access-Control-Allow-Origin'' = Some ''*'')
   \<and> (''*'' \<notin> set (origins self) \<and> ro = Some x \<and> x \<noteq> [] \<and> x \<in> set (origins self) \<longrightarrow>
      add_headers self ro ''Access-Control-Allow-Origin'' = Some x)
   \<and> (''*'' \<notin> set (origins self) \<and> \<not> (truthy ro \<and> the ro \<in> set (origins self))
        \<and> origins self = y # ys \<longrightarrow>
      add_headers self ro ''Access-Control-Allow-Origin'' = Some y)
   \<and> (origins self = [] \<longrightarrow> add_headers self ro ''Access-Control-Allow-Origin'' = None)
   \<and> add_headers self ro ''Access-Control-Allow-Methods'' = Some (join '', '' (methods self))
   \<and> add_headers self ro ''Access-Control-Allow-Headers'' = Some (join '', '' (headers self))
   \<and> add_headers self ro ''Access-Control-Max-Age'' = Some (str_int (max_age self))
   \<and> add_headers self ro ''Access-Control-Allow-Credentials''
        = (if credentials self then Some ''true'' else None)
   \<and> add_headers (CORSHandler_init (OriginList [''https://a.com'']) None None False 86400)
        (Some ''https://b.com'') ''Access-Control-Allow-Origin'' = Some ''https://a.com''"
  by (auto simp add: add_headers_def allow_origin_def CORSHandler_init_def truthy_def
      or_default_def Let_def)

theorem add_headers_origin_choice_witness:
  "add_headers (CORSHandler_init (OriginStr ''*'') None None False 86400) (Some ''https://b.com'')
      ''Access-Control-Allow-Origin'' = Some ''*''
   \<and> add_headers (CORSHandler_init (OriginList [''https://a.com'', ''https://b.com'']) None None
        True 86400) (Some ''https://b.com'') ''Access-Control-Allow-Origin'' = Some ''https://b.com''
   \<and> add_headers (CORSHandler_init (OriginList [''https://a.com'']) None None False 86400) None
      ''Access-Control-Allow-Origin'' = Some ''https://a.com''
   \<and> add_headers (CORSHandler_init (OriginList []) None None False 86400) None
      ''Access-Control-Allow-Origin'' = None
   \<and> add_headers (CORSHandler_init (OriginList [''https://a.com'']) None None False 86400) None
      ''Access-Control-Allow-Methods'' = Some ''GET, POST, PUT, DELETE, PATCH, OPTIONS''
   \<and> add_headers (CORSHandler_init (OriginList [''https://a.com'']) None None False 86400) None
      ''Access-Control-Max-Age'' = Some ''86400''"
proof -
  let ?w = "CORSHandler_init (OriginStr ''*'') None None False 86400"
  let ?ab = "CORSHandler_init (OriginList [''https://a.com'', ''https://b.com'']) None None True 86400"
  let ?a = "CORSHandler_init (OriginList [''https://a.com'']) None None False 86400"
  let ?e = "CORSHandler_init (OriginList []) None None False 86400"
  have o: "origins ?w = [''*'']" "origins ?ab = [''https://a.com'', ''https://b.com'']"
    "origins ?a = [''https://a.com'']" "origins ?e = []"
    "methods ?a = [''GET'', ''POST'', ''PUT'', ''DELETE'', ''PATCH'', ''OPTIONS'']"
    "max_age ?a = 86400"
    by (simp_all add: CORSHandler_init_def or_default_def)
  from add_headers_origin_choice [where self = ?w and ro = "Some ''https://b.com''", THEN conjunct1] o
  have 1: "add_headers ?w (Some ''https://b.com'') ''Access-Control-Allow-Origin'' = Some ''*''"
    by simp
  from add_headers_origin_choice [where self = ?ab and ro = "Some ''https://b.com''"
      and x = "''https://b.com''", THEN conjunct2, THEN conjunct1] o
  have 2: "add_headers ?ab (Some ''https://b.com'') ''Access-Control-Allow-Origin'' = Some ''https://b.com''"
    by simp
  from add_headers_origin_choice [where self = ?a and ro = None and y = "''https://a.com''"
      and ys = "[]", THEN conjunct2, THEN conjunct2, THEN conjunct1] o
  have 3: "add_headers ?a None ''Access-Control-Allow-Origin'' = Some ''https://a.com''"
    by (simp add: truthy_def)
  from add_headers_origin_choice [where self = ?e and ro = None,
      THEN conjunct2, THEN conjunct2, THEN conjunct2, THEN conjunct1] o
  have 4: "add_headers ?e None ''Access-Control-Allow-Origin'' = None"
    by simp
  from add_headers_origin_choice [where self = ?a and ro = None,
      THEN conjunct2, THEN conjunct2, THEN conjunct2, THEN conjunct2, THEN conjunct1] o
  have 5: "add_headers ?a None ''Access-Control-Allow-Methods''
      = Some ''GET, POST, PUT, DELETE, PATCH, OPTIONS''"
    by simp
  from add_headers_origin_choice [where self = ?a and ro = None, THEN conjunct2, THEN conjunct2,
      THEN conjunct2, THEN conjunct2, THEN conjunct2, THEN conjunct2, THEN conjunct1] o
  have 6: "add_headers ?a None ''Access-Control-Max-Age'' = Some ''86400''"
    by (simp add: str_int_def digits_of_86400)
  from 1 2 3 4 5 6 show ?thesis by blast
qed

subsection \<open>Path templates and matching\<close>

lemma takeWhile_stop:
  "\<not> P y \<Longrightarrow> takeWhile P (xs @ y # ys) = takeWhile P xs"
  by (induction xs) auto

lemma dropWhile_stop:
  "\<not> P y \<Longrightarrow> dropWhile P (xs @ y # ys) = dropWhile P xs @ y # ys"
  by (induction xs) auto

lemma colon_not_word: "\<not> is_word_char (CHR '':'')"
  by (simp add: is_word_char_def)

lemma takeWhile_name:
  assumes "list_all is_word_char name" "post = [] \<or> \<not> is_word_char (hd post)"
  shows "takeWhile is_word_char (name @ post) = name"
    and "dropWhile is_word_char (name @ post) = post"
proof -
  have a: "\<And>x. x \<in> set name \<Longrightarrow> is_word_char x" using assms(1) by (simp add: list_all_iff)
  have b: "takeWhile is_word_char post = []" "dropWhile is_word_char post = post"
    using assms(2) by (cases post; simp)+
  show "takeWhile is_word_char (name @ post) = name"
    using a b by simp
  show "dropWhile is_word_char (name @ post) = post"
    using a b by simp
qed

lemma sub_params_segment:
  assumes "name \<noteq> []" "list_all is_word_char name" "post = [] \<or> \<not> is_word_char (hd post)"
  shows "sub_params (pre @ CHR '':'' # name @ post)
           = sub_params pre @ ''(?P<'' @ name @ ''>[^/]+)'' @ sub_params post"
proof (induction pre rule: sub_params.induct)
  case 1
  show ?case using assms takeWhile_name [OF assms(2,3)] by simp
next
  case (2 c cs)
  let ?rest = "CHR '':'' # name @ post"
  have t: "takeWhile is_word_char (cs @ ?rest) = takeWhile is_word_char cs"
    by (rule takeWhile_stop) (rule colon_not_word)
  have d: "dropWhile is_word_char (cs @ ?rest) = dropWhile is_word_char cs @ ?rest"
    by (rule dropWhile_stop) (rule colon_not_word)
  show ?case
  proof (cases "c = CHR '':'' \<and> takeWhile is_word_char cs \<noteq> []")
    case True
    then show ?thesis using "2.IH"(1) t d by simp
  next
    case False
    then show ?thesis using "2.IH"(2) t d by auto
  qed
qed


lemma first_split_result:
  assumes "first_split name k s m = Some r"
  shows "\<exists>j gd. 0 < j \<and> j \<le> m \<and> r = (name, Some (take j s)) # gd \<and> k (drop j s) = Some gd"
  using assms
proof (induction m)
  case 0
  then show ?case by simp
next
  case (Suc m)
  show ?case
  proof (cases "k (drop (Suc m) s)")
    case None
    with Suc obtain j gd where "0 < j" "j \<le> m" "r = (name, Some (take j s)) # gd"
        "k (drop j s) = Some gd"
      by auto
    then show ?thesis by (intro exI [of _ j] exI [of _ gd]) simp
  next
    case (Some gd)
    with Suc.prems have "r = (name, Some (take (Suc m) s)) # gd" by simp
    with Some show ?thesis by (intro exI [of _ "Suc m"] exI [of _ gd]) simp
  qed
qed

lemma take_run_no_slash:
  assumes "j \<le> length (takeWhile (\<lambda>x. x \<noteq> CHR ''/'') s)"
  shows "CHR ''/'' \<notin> set (take j s)"
proof -
  let ?run = "takeWhile (\<lambda>x. x \<noteq> CHR ''/'') s"
  have "take j s = take j (?run @ dropWhile (\<lambda>x. x \<noteq> CHR ''/'') s)"
    by (simp only: takeWhile_dropWhile_id)
  also have "\<dots> = take j ?run" using assms by (simp del: takeWhile_dropWhile_id)
  finally have "set (take j s) \<subseteq> set ?run"
    by (simp add: set_take_subset)
  then show ?thesis using set_takeWhileD by fastforce
qed

lemma first_split_groups:
  assumes "first_split name k s (length (takeWhile (\<lambda>x. x \<noteq> CHR ''/'') s)) = Some gd"
  obtains v gd' s' where "gd = (name, Some v) # gd'" "v \<noteq> []" "CHR ''/'' \<notin> set v"
    "k s' = Some gd'"
proof -
  let ?m = "length (takeWhile (\<lambda>x. x \<noteq> CHR ''/'') s)"
  from first_split_result [OF assms] obtain j gd' where
    j: "0 < j" "j \<le> ?m" and gd: "gd = (name, Some (take j s)) # gd'"
    and rest: "k (drop j s) = Some gd'"
    by blast
  have "j \<le> length s" using j(2) length_takeWhile_le [of "\<lambda>x. x \<noteq> CHR ''/''" s] by linarith
  then have "take j s \<noteq> []" using j(1) by auto
  with gd rest take_run_no_slash [OF j(2)] that show thesis by blast
qed

text \<open>
  A value of the group dictionary that is a string is not empty and has no \<^verbatim>\<open>/\<close>; a value
  that is \<^verbatim>\<open>None\<close> belongs to an optional group.
\<close>

lemma match_items_groups:
  "match_items items s = Some gd \<Longrightarrow> (n, v) \<in> set gd \<Longrightarrow>
   (case v of None \<Rightarrow> OptGroup n \<in> set items | Some x \<Rightarrow> x \<noteq> [] \<and> CHR ''/'' \<notin> set x)"
proof (induction items arbitrary: s gd)
  case Nil
  then show ?case by (simp split: if_splits)
next
  case (Cons item items)
  have step: "(case v of None \<Rightarrow> OptGroup n \<in> set (item # items)
               | Some x \<Rightarrow> x \<noteq> [] \<and> CHR ''/'' \<notin> set x)"
    if "match_items items s' = Some gd'" "(n, v) \<in> set gd'" for s' gd'
    using Cons.IH [OF that] by (cases v) simp_all
  show ?case
  proof (cases item)
    case (Lit c)
    with Cons.prems obtain xs where "match_items items xs = Some gd"
      by (auto split: list.splits if_splits)
    then show ?thesis using step Cons.prems(2) by blast
  next
    case AnyChar
    with Cons.prems obtain xs where "match_items items xs = Some gd"
      by (auto split: list.splits if_splits)
    then show ?thesis using step Cons.prems(2) by blast
  next
    case (Group name)
    with Cons.prems(1) have
      "first_split name (match_items items) s (length (takeWhile (\<lambda>x. x \<noteq> CHR ''/'') s)) = Some gd"
      by simp
    then obtain x gd' s' where gd: "gd = (name, Some x) # gd'" "x \<noteq> []" "CHR ''/'' \<notin> set x"
      and rest: "match_items items s' = Some gd'"
      by (rule first_split_groups)
    show ?thesis
    proof (cases "(n, v) = (name, Some x)")
      case True
      then show ?thesis using gd by simp
    next
      case False
      then have "(n, v) \<in> set gd'" using Cons.prems(2) gd by auto
      then show ?thesis using step [OF rest] by blast
    qed
  next
    case (OptGroup name)
    let ?f = "first_split name (match_items items) s (length (takeWhile (\<lambda>x. x \<noteq> CHR ''/'') s))"
    show ?thesis
    proof (cases ?f)
      case (Some r)
      with Cons.prems(1) OptGroup have "?f = Some gd" by simp
      then obtain x gd' s' where gd: "gd = (name, Some x) # gd'" "x \<noteq> []" "CHR ''/'' \<notin> set x"
        and rest: "match_items items s' = Some gd'"
        by (rule first_split_groups)
      show ?thesis
      proof (cases "(n, v) = (name, Some x)")
        case True
        then show ?thesis using gd by simp
      next
        case False
        then have "(n, v) \<in> set gd'" using Cons.prems(2) gd by auto
        then show ?thesis using step [OF rest] by blast
      qed
    next
      case None
      with Cons.prems(1) OptGroup obtain gd' where gd: "gd = (name, None) # gd'"
        and rest: "match_items items s = Some gd'"
        by auto
      show ?thesis
      proof (cases "(n, v) = (name, None)")
        case True
        then show ?thesis using OptGroup by simp
      next
        case False
        then have "(n, v) \<in> set gd'" using Cons.prems(2) gd by auto
        then show ?thesis using step [OF rest] by blast
      qed
    qed
  qed
qed

lemma path_to_regex_a_id: "path_to_regex ''/a/:id'' = ''^/a/(?P<id>[^/]+)$''"
  by (simp add: path_to_regex_def is_word_char_def)

lemma re_compile_a_id:
  "re_compile ''^/a/(?P<id>[^/]+)$'' = Returns [Lit CHR ''/'', Lit CHR ''a'', Lit CHR ''/'', Group ''id'']"
  by (simp add: re_compile_def is_special_def is_ascii_def is_identifier_def is_ident_start_def
      is_ident_char_def)

lemma re_match_a_id:
  "re_match ''^/a/(?P<id>[^/]+)$'' ''/a/'' = Returns None"
  "re_match ''^/a/(?P<id>[^/]+)$'' ''/a/b/c'' = Returns None"
  "re_match ''^/a/(?P<id>[^/]+)$'' ''/a/static'' = Returns (Some [(''id'', Some ''static'')])"
  by (simp_all add: re_match_def re_compile_a_id)

lemma path_to_regex_a_id_opt: "path_to_regex ''/a/:id?'' = ''^/a/(?P<id>[^/]+)?$''"
  by (simp add: path_to_regex_def is_word_char_def)

lemma re_compile_a_id_opt:
  "re_compile ''^/a/(?P<id>[^/]+)?$''
     = Returns [Lit CHR ''/'', Lit CHR ''a'', Lit CHR ''/'', OptGroup ''id'']"
  by (simp add: re_compile_def is_special_def is_ascii_def is_identifier_def is_ident_start_def
      is_ident_char_def)

lemma re_match_a_id_opt:
  "re_match ''^/a/(?P<id>[^/]+)?$'' ''/a/'' = Returns (Some [(''id'', None)])"
  "re_match ''^/a/(?P<id>[^/]+)?$'' ''/a/x'' = Returns (Some [(''id'', Some ''x'')])"
  by (simp_all add: re_match_def re_compile_a_id_opt)

text \<open>
  A plain template always compiles inside the fragment, and none of its groups is
  optional: the character after a group is a character of the template, or the
  parenthesis of the next group, and never \<^verbatim>\<open>?\<close>.
\<close>

lemma plain_template_Cons:
  "plain_template (c # cs) \<longleftrightarrow>
     is_ascii c \<and> (\<not> is_special c \<or> c = CHR ''.'') \<and> plain_template cs"
  by (simp add: plain_template_def)

lemma plain_template_subset:
  "plain_template t \<Longrightarrow> set u \<subseteq> set t \<Longrightarrow> plain_template u"
  by (auto simp: plain_template_def list_all_iff)

lemma plain_template_ascii: "plain_template t \<Longrightarrow> list_all is_ascii t"
  by (simp add: plain_template_def list_all_iff)

lemma sub_params_no_question:
  "plain_template t \<Longrightarrow> take 1 (sub_params t) \<noteq> ''?''"
  by (cases t) (auto simp: plain_template_Cons is_special_def)

lemma gt_not_word: "\<not> is_word_char (CHR ''>'')"
  by (simp add: is_word_char_def)

lemma takeWhile_group_name:
  assumes "list_all is_word_char name"
  shows "takeWhile (\<lambda>x. x \<noteq> CHR ''>'') (name @ CHR ''>'' # rest) = name"
    and "dropWhile (\<lambda>x. x \<noteq> CHR ''>'') (name @ CHR ''>'' # rest) = CHR ''>'' # rest"
proof -
  have "\<forall>x \<in> set name. x \<noteq> CHR ''>''"
    using assms gt_not_word by (auto simp: list_all_iff)
  then show "takeWhile (\<lambda>x. x \<noteq> CHR ''>'') (name @ CHR ''>'' # rest) = name"
    and "dropWhile (\<lambda>x. x \<noteq> CHR ''>'') (name @ CHR ''>'' # rest) = CHR ''>'' # rest"
    by simp_all
qed

lemma re_tokens_group:
  assumes "list_all is_word_char name" and "list_all is_ascii name"
    and "take 1 rest \<noteq> ''?''"
  shows "re_tokens (''(?P<'' @ name @ ''>[^/]+)'' @ rest)
           = map_option (Cons (Group name)) (re_tokens rest)"
proof -
  let ?tail = "CHR ''['' # CHR ''^'' # CHR ''/'' # CHR '']'' # CHR ''+'' # CHR '')'' # rest"
  have shape: "''(?P<'' @ name @ ''>[^/]+)'' @ rest
      = CHR ''('' # CHR ''?'' # CHR ''P'' # CHR ''<'' # (name @ CHR ''>'' # ?tail)"
    by simp
  have name: "takeWhile (\<lambda>x. x \<noteq> CHR ''>'') (name @ CHR ''>'' # ?tail) = name"
    and after: "dropWhile (\<lambda>x. x \<noteq> CHR ''>'') (name @ CHR ''>'' # ?tail) = CHR ''>'' # ?tail"
    using takeWhile_group_name [OF assms(1)] by blast+
  have nq: "take (Suc 0) rest \<noteq> ''?''" using assms(3) by simp
  show ?thesis
    unfolding shape
    by (subst re_tokens.simps) (simp add: Let_def name after assms(2) nq del: re_tokens.simps)
qed

lemma re_tokens_plain:
  "plain_template t \<Longrightarrow>
   \<exists>items. re_tokens (sub_params t) = Some items \<and> (\<forall>n. OptGroup n \<notin> set items)"
proof (induction t rule: sub_params.induct)
  case 1
  then show ?case by simp
next
  case (2 c cs)
  show ?case
  proof (cases "c = CHR '':'' \<and> takeWhile is_word_char cs \<noteq> []")
    case True
    let ?name = "takeWhile is_word_char cs"
    let ?rest = "dropWhile is_word_char cs"
    have plain_cs: "plain_template cs" using "2.prems" by (simp add: plain_template_Cons)
    have "plain_template ?rest"
      using plain_cs by (rule plain_template_subset) (auto dest: set_dropWhileD)
    then obtain items where items: "re_tokens (sub_params ?rest) = Some items"
        "\<forall>n. OptGroup n \<notin> set items"
      and nq: "take 1 (sub_params ?rest) \<noteq> ''?''"
      using "2.IH"(1) True sub_params_no_question by blast
    have word: "list_all is_word_char ?name"
      by (auto simp: list_all_iff dest: set_takeWhileD)
    have "plain_template ?name"
      using plain_cs by (rule plain_template_subset) (auto dest: set_takeWhileD)
    then have ascii: "list_all is_ascii ?name" by (rule plain_template_ascii)
    have "sub_params (c # cs) = ''(?P<'' @ ?name @ ''>[^/]+)'' @ sub_params ?rest"
      using True by simp
    then have "re_tokens (sub_params (c # cs)) = Some (Group ?name # items)"
      using re_tokens_group [OF word ascii nq] items(1) by simp
    then show ?thesis using items(2) by simp
  next
    case False
    have plain_cs: "plain_template cs" and c: "is_ascii c" "\<not> is_special c \<or> c = CHR ''.''"
      using "2.prems" by (simp_all add: plain_template_Cons)
    obtain items where items: "re_tokens (sub_params cs) = Some items"
        "\<forall>n. OptGroup n \<notin> set items"
      using "2.IH"(2) False plain_cs by blast
    have sub: "sub_params (c # cs) = c # sub_params cs" using False by auto
    have paren: "c \<noteq> CHR ''(''" using c(2) by (auto simp: is_special_def)
    show ?thesis
    proof (cases "c = CHR ''.''")
      case True
      then have "re_tokens (sub_params (c # cs)) = Some (AnyChar # items)"
        unfolding sub by (subst re_tokens.simps) (simp add: items(1) del: re_tokens.simps)
      then show ?thesis using items(2) by simp
    next
      case dot: False
      then have "re_tokens (sub_params (c # cs)) = Some (Lit c # items)"
        unfolding sub using c(2) paren
        by (subst re_tokens.simps) (simp add: items(1) del: re_tokens.simps)
      then show ?thesis using items(2) by simp
    qed
  qed
qed

lemma re_compile_plain:
  assumes "plain_template t"
  shows "re_compile (path_to_regex t) = Raises ReError
         \<or> (\<exists>items. re_compile (path_to_regex t) = Returns items \<and> (\<forall>n. OptGroup n \<notin> set items))"
proof -
  obtain items where "re_tokens (sub_params t) = Some items" "\<forall>n. OptGroup n \<notin> set items"
    using re_tokens_plain [OF assms] by blast
  then show ?thesis
    by (simp add: re_compile_def path_to_regex_def butlast_append)
qed

lemma re_match_plain_modelled:
  "plain_template t \<Longrightarrow> re_match (path_to_regex t) p \<noteq> Unmodelled"
  using re_compile_plain [of t] by (auto simp: re_match_def)

lemma re_match_plain_groups:
  assumes "plain_template t" and "re_match (path_to_regex t) p = Returns (Some gd)"
    and "(n, v) \<in> set gd"
  shows "\<exists>s. v = Some s \<and> s \<noteq> [] \<and> CHR ''/'' \<notin> set s"
proof -
  from re_compile_plain [OF assms(1)] assms(2) obtain items where
    items: "re_compile (path_to_regex t) = Returns items" "\<forall>n. OptGroup n \<notin> set items"
    by (auto simp: re_match_def)
  with assms(2) have "match_items items p = Some gd" by (simp add: re_match_def)
  from match_items_groups [OF this assms(3)] items(2) show ?thesis
    by (cases v) simp_all
qed

lemma re_match_present_groups:
  assumes "re_match pattern p = Returns (Some gd)" and "(n, Some s) \<in> set gd"
  shows "s \<noteq> [] \<and> CHR ''/'' \<notin> set s"
proof -
  from assms(1) obtain items where "match_items items p = Some gd"
    by (auto simp: re_match_def split: py_result.splits)
  from match_items_groups [OF this assms(2)] show ?thesis by simp
qed

lemma match_route_skip:
  assumes "\<forall>(p, ms, h, orig) \<in> set pre. method \<in> set ms \<longrightarrow> re_match p path = Returns None"
  shows "match_route (pre @ rs) method path = match_route rs method path"
  using assms by (induction pre) auto

lemma match_route_found:
  assumes "match_route rs method path = Returns (Some (h, gd))"
  shows "\<exists>pre pattern meths original post.
           rs = pre @ (pattern, meths, h, original) # post
           \<and> method \<in> set meths \<and> re_match pattern path = Returns (Some gd)
           \<and> (\<forall>(p, ms, h', orig) \<in> set pre. method \<in> set ms \<longrightarrow> re_match p path = Returns None)"
  using assms
proof (induction rs)
  case Nil
  then show ?case by simp
next
  case (Cons r rs)
  obtain pattern meths handler original where r: "r = (pattern, meths, handler, original)"
    by (cases r) auto
  show ?case
  proof (cases "method \<in> set meths \<and> re_match pattern path \<noteq> Returns None")
    case True
    with Cons.prems r have "re_match pattern path = Returns (Some gd)" "handler = h"
      by (auto split: py_result.splits option.splits)
    with True r have "r # rs = [] @ (pattern, meths, h, original) # rs
           \<and> method \<in> set meths \<and> re_match pattern path = Returns (Some gd)
           \<and> (\<forall>(p, ms, h', orig) \<in> set []. method \<in> set ms \<longrightarrow> re_match p path = Returns None)"
      by simp
    then show ?thesis
      by (intro exI [of _ "[]"] exI [of _ pattern] exI [of _ meths] exI [of _ original]
          exI [of _ rs])
  next
    case False
    with Cons.prems r have "match_route rs method path = Returns (Some (h, gd))"
      by (auto split: if_splits)
    from Cons.IH [OF this] obtain pre p' ms' o' post where
      *: "rs = pre @ (p', ms', h, o') # post" "method \<in> set ms'" "re_match p' path = Returns (Some gd)"
         "\<forall>(p, ms, h', orig) \<in> set pre. method \<in> set ms \<longrightarrow> re_match p path = Returns None"
      by blast
    have "r # rs = (r # pre) @ (p', ms', h, o') # post
           \<and> method \<in> set ms' \<and> re_match p' path = Returns (Some gd)
           \<and> (\<forall>(p, ms, h', orig) \<in> set (r # pre). method \<in> set ms \<longrightarrow> re_match p path = Returns None)"
      using * False r by auto
    then show ?thesis
      by (intro exI [of _ "r # pre"] exI [of _ p'] exI [of _ ms'] exI [of _ o'] exI [of _ post])
  qed
qed

lemma route_a_id_static:
  "routes (route (route RiftHTTPServer_init ''/a/:id'' [''GET''] h1) ''/a/static'' [''GET''] h2)
     = [(''^/a/(?P<id>[^/]+)$'', [''GET''], h1, ''/a/:id''),
        (''^/a/static$'', [''GET''], h2, ''/a/static'')]"
  by (simp add: route_def RiftHTTPServer_init_def path_to_regex_def is_word_char_def upper_def
      upper_char_def)

text \<open>
  Claim C3. \<^verbatim>\<open>_match_route\<close> returns handler \<open>h\<close> with groups \<open>gd\<close> exactly when some
  route with handler \<open>h\<close> allows the method and its pattern matches the path with groups
  \<open>gd\<close>, and every route registered before it that allows the method has a pattern that
  does not match. Registered as \<^verbatim>\<open>/a/:id\<close> before \<^verbatim>\<open>/a/static\<close>, a \<^verbatim>\<open>GET\<close> of
  \<^verbatim>\<open>/a/static\<close> goes to the first route with \<^verbatim>\<open>id = static\<close>.
\<close>

theorem match_route_first_match:
  "(match_route rs method path = Returns (Some (h, gd)) \<longleftrightarrow>
      (\<exists>pre pattern meths original post.
         rs = pre @ (pattern, meths, h, original) # post
         \<and> method \<in> set meths \<and> re_match pattern path = Returns (Some gd)
         \<and> (\<forall>(p, ms, h', orig) \<in> set pre. method \<in> set ms \<longrightarrow> re_match p path = Returns None)))
   \<and> match_route
         (routes (route (route RiftHTTPServer_init ''/a/:id'' [''GET''] h1) ''/a/static'' [''GET''] h2))
         ''GET'' ''/a/static''
       = Returns (Some (h1, [(''id'', Some ''static'')]))"
proof (intro conjI iffI)
  assume "match_route rs method path = Returns (Some (h, gd))"
  then show "\<exists>pre pattern meths original post.
         rs = pre @ (pattern, meths, h, original) # post
         \<and> method \<in> set meths \<and> re_match pattern path = Returns (Some gd)
         \<and> (\<forall>(p, ms, h', orig) \<in> set pre. method \<in> set ms \<longrightarrow> re_match p path = Returns None)"
    by (rule match_route_found)
next
  assume "\<exists>pre pattern meths original post.
         rs = pre @ (pattern, meths, h, original) # post
         \<and> method \<in> set meths \<and> re_match pattern path = Returns (Some gd)
         \<and> (\<forall>(p, ms, h', orig) \<in> set pre. method \<in> set ms \<longrightarrow> re_match p path = Returns None)"
  then obtain pre pattern meths original post where
    *: "rs = pre @ (pattern, meths, h, original) # post" "method \<in> set meths"
       "re_match pattern path = Returns (Some gd)"
       "\<forall>(p, ms, h', orig) \<in> set pre. method \<in> set ms \<longrightarrow> re_match p path = Returns None"
    by blast
  show "match_route rs method path = Returns (Some (h, gd))"
    using * by (simp add: match_route_skip)
next
  show "match_route
         (routes (route (route RiftHTTPServer_init ''/a/:id'' [''GET''] h1) ''/a/static'' [''GET''] h2))
         ''GET'' ''/a/static''
       = Returns (Some (h1, [(''id'', Some ''static'')]))"
    by (simp add: route_a_id_static re_match_a_id)
qed

theorem match_route_first_match_witness:
  "match_route
     [(''^/a/(?P<id>[^/]+)$'', [''POST''], 0 :: nat, ''/a/:id''),
      (''^/a/(?P<id>[^/]+)$'', [''GET''], 1, ''/a/:id''),
      (''^/a/static$'', [''GET''], 2, ''/a/static'')]
     ''GET'' ''/a/static''
   = Returns (Some (1, [(''id'', Some ''static'')]))"
proof -
  let ?pre = "[(''^/a/(?P<id>[^/]+)$'', [''POST''], 0 :: nat, ''/a/:id'')]"
  let ?post = "[(''^/a/static$'', [''GET''], 2 :: nat, ''/a/static'')]"
  have "\<exists>pre pattern meths original post.
         ?pre @ (''^/a/(?P<id>[^/]+)$'', [''GET''], 1, ''/a/:id'') # ?post
           = pre @ (pattern, meths, 1, original) # post
         \<and> ''GET'' \<in> set meths
         \<and> re_match pattern ''/a/static'' = Returns (Some [(''id'', Some ''static'')])
         \<and> (\<forall>(p, ms, h', orig) \<in> set pre.
               ''GET'' \<in> set ms \<longrightarrow> re_match p ''/a/static'' = Returns None)"
    by (intro exI [of _ ?pre] exI [of _ "''^/a/(?P<id>[^/]+)$''"] exI [of _ "[''GET'']"]
        exI [of _ "''/a/:id''"] exI [of _ ?post]) (simp add: re_match_a_id)
  from match_route_first_match [THEN conjunct1, THEN iffD2, OF this]
  show ?thesis by simp
qed

text \<open>
  Claim C10, as the specification has it, fails: the text of a template is not escaped,
  so a \<^verbatim>\<open>?\<close> behind a name makes the group optional. The template \<^verbatim>\<open>/a/:id?\<close> compiles to
  \<^verbatim>\<open>^/a/(?P<id>[^/]+)?$\<close>, and the path \<^verbatim>\<open>/a/\<close>, whose last segment is empty, matches it
  with the parameter \<^verbatim>\<open>id\<close> set to \<^verbatim>\<open>None\<close>.
\<close>

theorem named_segment_optional_counterexample:
  "path_to_regex ''/a/:id?'' = ''^/a/(?P<id>[^/]+)?$''
   \<and> re_match (path_to_regex ''/a/:id?'') ''/a/'' = Returns (Some [(''id'', None)])"
  by (simp add: path_to_regex_a_id_opt re_match_a_id_opt)

text \<open>
  Claim C10, amended. A colon with a name behind it becomes the group
  \<^verbatim>\<open>(?P<name>[^/]+)\<close> between the anchors \<^verbatim>\<open>^\<close> and \<^verbatim>\<open>$\<close>, whatever stands before the colon
  and whatever follows the name. For a plain template (ASCII characters, none special in
  a regular expression except the dot) the match is always defined, and when the pattern
  matches a path every named parameter is a string that is not empty and has no \<^verbatim>\<open>/\<close>.
  For any pattern of the fragment, a parameter that is a string is not empty and has no
  \<^verbatim>\<open>/\<close>. The template \<^verbatim>\<open>/a/:id\<close> matches neither \<^verbatim>\<open>/a/\<close> nor \<^verbatim>\<open>/a/b/c\<close>.
\<close>

theorem named_segment_is_one_path_segment:
  "(name \<noteq> [] \<and> list_all is_word_char name \<and> (post = [] \<or> \<not> is_word_char (hd post)) \<longrightarrow>
      path_to_regex (pre @ CHR '':'' # name @ post)
        = ''^'' @ sub_params pre @ ''(?P<'' @ name @ ''>[^/]+)'' @ sub_params post @ ''$'')
   \<and> (plain_template template \<longrightarrow>
        re_match (path_to_regex template) path \<noteq> Unmodelled
        \<and> (re_match (path_to_regex template) path = Returns (Some gd) \<longrightarrow>
             (\<forall>(n, v) \<in> set gd. \<exists>s. v = Some s \<and> s \<noteq> [] \<and> CHR ''/'' \<notin> set s)))
   \<and> (re_match pattern path = Returns (Some gd') \<longrightarrow>
        (\<forall>(n, v) \<in> set gd'. \<forall>s. v = Some s \<longrightarrow> s \<noteq> [] \<and> CHR ''/'' \<notin> set s))
   \<and> re_match (path_to_regex ''/a/:id'') ''/a/'' = Returns None
   \<and> re_match (path_to_regex ''/a/:id'') ''/a/b/c'' = Returns None"
proof (intro conjI impI)
  assume "name \<noteq> [] \<and> list_all is_word_char name \<and> (post = [] \<or> \<not> is_word_char (hd post))"
  then show "path_to_regex (pre @ CHR '':'' # name @ post)
        = ''^'' @ sub_params pre @ ''(?P<'' @ name @ ''>[^/]+)'' @ sub_params post @ ''$''"
    by (simp add: path_to_regex_def sub_params_segment)
next
  assume "plain_template template"
  then show "re_match (path_to_regex template) path \<noteq> Unmodelled"
    by (rule re_match_plain_modelled)
next
  assume "plain_template template"
    and "re_match (path_to_regex template) path = Returns (Some gd)"
  then show "\<forall>(n, v) \<in> set gd. \<exists>s. v = Some s \<and> s \<noteq> [] \<and> CHR ''/'' \<notin> set s"
    using re_match_plain_groups by blast
next
  assume "re_match pattern path = Returns (Some gd')"
  then show "\<forall>(n, v) \<in> set gd'. \<forall>s. v = Some s \<longrightarrow> s \<noteq> [] \<and> CHR ''/'' \<notin> set s"
    using re_match_present_groups by blast
qed (simp_all add: path_to_regex_a_id re_match_a_id)

theorem named_segment_is_one_path_segment_witness:
  "path_to_regex ''/a/:id/x'' = ''^/a/(?P<id>[^/]+)/x$''
   \<and> plain_template ''/a/:id''
   \<and> re_match (path_to_regex ''/a/:id'') ''/a/static'' = Returns (Some [(''id'', Some ''static'')])
   \<and> ''static'' \<noteq> [] \<and> CHR ''/'' \<notin> set ''static''
   \<and> re_match ''^/a/(?P<id>[^/]+)?$'' ''/a/x'' = Returns (Some [(''id'', Some ''x'')])
   \<and> ''x'' \<noteq> [] \<and> CHR ''/'' \<notin> set ''x''"
proof -
  have 1: "''id'' \<noteq> [] \<and> list_all is_word_char ''id''
      \<and> (''/x'' = [] \<or> \<not> is_word_char (hd ''/x''))"
    by (simp add: is_word_char_def)
  have 2: "plain_template ''/a/:id''"
    by (simp add: plain_template_def is_ascii_def is_special_def)
  have 3: "re_match (path_to_regex ''/a/:id'') ''/a/static''
             = Returns (Some [(''id'', Some ''static'')])"
    by (simp add: path_to_regex_a_id re_match_a_id)
  have 4: "re_match ''^/a/(?P<id>[^/]+)?$'' ''/a/x'' = Returns (Some [(''id'', Some ''x'')])"
    by (simp add: re_match_a_id_opt)
  from named_segment_is_one_path_segment [where name = "''id''" and post = "''/x''"
      and pre = "''/a/''", THEN conjunct1, rule_format, OF 1]
  have 5: "path_to_regex ''/a/:id/x'' = ''^/a/(?P<id>[^/]+)/x$''"
    by simp
  from named_segment_is_one_path_segment [where template = "''/a/:id''"
      and path = "''/a/static''" and gd = "[(''id'', Some ''static'')]",
      THEN conjunct2, THEN conjunct1, rule_format, OF 2, THEN conjunct2, rule_format, OF 3]
  have 6: "''static'' \<noteq> [] \<and> CHR ''/'' \<notin> set ''static''"
    by simp
  from named_segment_is_one_path_segment [where pattern = "''^/a/(?P<id>[^/]+)?$''"
      and path = "''/a/x''" and gd' = "[(''id'', Some ''x'')]",
      THEN conjunct2, THEN conjunct2, THEN conjunct1, rule_format, OF 4]
  have 7: "''x'' \<noteq> [] \<and> CHR ''/'' \<notin> set ''x''"
    by simp
  from 2 3 4 5 6 7 show ?thesis by blast
qed

subsection \<open>Dispatching\<close>

lemma match_route_none:
  assumes "\<forall>(p, ms, h, orig) \<in> set rs. method \<in> set ms \<longrightarrow> re_match p path = Returns None"
  shows "match_route rs method path = Returns None"
  using match_route_skip [OF assms, of "[]"] by simp

lemma try_send_response_no_405: "SendError 405 body \<notin> set (try_send_response env v)"
  by (simp add: try_send_response_def split: option.splits)

lemma run_middleware_no_405: "SendError 405 body \<notin> set (fst (run_middleware env mws request))"
proof (induction mws arbitrary: request)
  case Nil
  then show ?case by simp
next
  case (Cons mw mws)
  obtain r request' where c: "call env mw request = (r, request')" by (cases "call env mw request")
  obtain actions q where m: "run_middleware env mws request' = (actions, q)"
    by (cases "run_middleware env mws request'")
  have "SendError 405 body \<notin> set actions" using Cons.IH [of request'] m by simp
  then show ?case
    using c m by (cases r) (simp_all add: try_send_response_no_405)
qed

lemma call_handler_no_405: "SendError 405 body \<notin> set (call_handler env handler request)"
  by (simp add: call_handler_def try_send_response_no_405 split: prod.splits sum.splits)

lemma handle_request_no_405:
  assumes "handle_request env self method path = Returns actions"
  shows "SendError 405 body \<notin> set actions"
proof (cases "find_static (static_routes self) path")
  case (Some m)
  with assms show ?thesis by (auto simp: handle_request_def split: prod.splits)
next
  case None
  show ?thesis
  proof (cases "match_route (routes self) method path")
    case (Returns found)
    show ?thesis
    proof (cases found)
      case None
      with assms \<open>find_static (static_routes self) path = None\<close> Returns show ?thesis
        by (auto simp: handle_request_def error_body_def)
    next
      case (Some hp)
      obtain handler params where hp: "hp = (handler, params)" by (cases hp)
      show ?thesis
      proof (cases "build_request env params")
        case (Inl e)
        with assms \<open>find_static (static_routes self) path = None\<close> Returns Some hp show ?thesis
          by (simp add: handle_request_def)
      next
        case (Inr request)
        obtain acts q where m: "run_middleware env (middleware self) request = (acts, q)"
          by (cases "run_middleware env (middleware self) request")
        have a: "SendError 405 body \<notin> set acts"
          using run_middleware_no_405 [of body env "middleware self" request] m by simp
        show ?thesis
          using assms \<open>find_static (static_routes self) path = None\<close> Returns Some hp Inr m a
          by (cases q) (auto simp: handle_request_def call_handler_no_405)
      qed
    qed
  next
    case (Raises e)
    with assms None show ?thesis by (simp add: handle_request_def)
  next
    case Unmodelled
    with assms None show ?thesis by (simp add: handle_request_def)
  qed
qed

text \<open>
  Claim C2. When every route that allows the method of a request has a pattern that does
  not match its path (so the routes whose patterns do match all exclude the method), the
  handler does exactly what it does for a server without any route: if no static mount
  takes the path, it sends the error 404 with the body \<^verbatim>\<open>{'error': 'Not found'}\<close>. No
  request at all makes the handler send an error 405.
\<close>

theorem method_mismatch_is_not_found:
  assumes "\<forall>(p, ms, h, orig) \<in> set (routes self). method \<in> set ms \<longrightarrow> re_match p path = Returns None"
  shows "handle_request env self method path = handle_request env (self\<lparr>routes := []\<rparr>) method path
     \<and> (find_static (static_routes self) path = None \<longrightarrow>
          handle_request env self method path
            = Returns [SendError 404 (error_body (lit ''Not found''))])
     \<and> (handle_request env' self' method' path' = Returns actions \<longrightarrow>
          SendError 405 body \<notin> set actions)"
  using match_route_none [OF assms] handle_request_no_405 [of env' self' method' path' actions body]
  by (simp add: handle_request_def split: option.splits)

theorem method_mismatch_is_not_found_witness:
  "re_match ''^/a/(?P<id>[^/]+)$'' ''/a/static'' = Returns (Some [(''id'', Some ''static'')])
   \<and> ''GET'' \<notin> set [''POST'']
   \<and> handle_request \<lparr>call = \<lambda>h r. (Inr PNone, r), build_request = \<lambda>gd. Inr (0 :: nat),
                       send_fails = \<lambda>v. None\<rparr>
        \<lparr>routes = [(''^/a/(?P<id>[^/]+)$'', [''POST''], 0 :: nat, ''/a/:id'')], middleware = [],
         static_routes = [(''/files'', ''www'')]\<rparr>
        ''GET'' ''/a/static''
      = Returns [SendError 404 (error_body (lit ''Not found''))]"
proof -
  let ?env = "\<lparr>call = \<lambda>h (r :: nat). (Inr PNone, r), build_request = \<lambda>gd. Inr (0 :: nat),
               send_fails = \<lambda>v. None\<rparr>"
  let ?srv = "\<lparr>routes = [(''^/a/(?P<id>[^/]+)$'', [''POST''], 0 :: nat, ''/a/:id'')],
               middleware = [], static_routes = [(''/files'', ''www'')]\<rparr>"
  have h: "\<forall>(p, ms, h, orig) \<in> set (routes ?srv).
             ''GET'' \<in> set ms \<longrightarrow> re_match p ''/a/static'' = Returns None"
    by simp
  have s: "find_static (static_routes ?srv) ''/a/static'' = None"
    by simp
  from method_mismatch_is_not_found [OF h, where env = ?env, THEN conjunct2, THEN conjunct1,
      rule_format, OF s]
  show ?thesis by (simp add: re_match_a_id)
qed

lemma run_middleware_passes_all:
  "passes_all env mws request final \<Longrightarrow>
   run_middleware env mws request = (map Call mws, Some final)"
proof (induction mws arbitrary: request)
  case Nil
  then show ?case by simp
next
  case (Cons mw mws)
  obtain r request' where c: "call env mw request = (r, request')" by (cases "call env mw request")
  from Cons.prems c obtain v where v: "r = Inr v" "\<not> carries_status v"
      "passes_all env mws request' final"
    by (cases r) auto
  from Cons.IH [OF v(3)] c v(1,2) show ?case by simp
qed

lemma run_middleware_append:
  "run_middleware env pre request = (acts, Some request1) \<Longrightarrow>
   run_middleware env (pre @ rest) request
     = (case run_middleware env rest request1 of (as, r) \<Rightarrow> (acts @ as, r))"
proof (induction pre arbitrary: request acts)
  case Nil
  then show ?case by (simp split: prod.splits)
next
  case (Cons mw mws)
  obtain r request' where c: "call env mw request = (r, request')" by (cases "call env mw request")
  obtain actions q where m: "run_middleware env mws request' = (actions, q)"
    by (cases "run_middleware env mws request'")
  from Cons.prems c m have *: "q = Some request1" "acts = Call mw # actions"
      "\<exists>v. r = Inr v \<and> \<not> (v \<noteq> PNone \<and> carries_status v)"
    by (auto split: sum.splits if_splits)
  from Cons.IH [of request' actions] m * have
    "run_middleware env (mws @ rest) request'
       = (case run_middleware env rest request1 of (as, r) \<Rightarrow> (actions @ as, r))"
    by simp
  then show ?case using c * by (auto split: prod.splits)
qed

lemma run_middleware_after:
  assumes "passes_all env pre request request1"
  shows "run_middleware env (pre @ rest) request
     = (case run_middleware env rest request1 of (as, r) \<Rightarrow> (map Call pre @ as, r))"
  using run_middleware_append [OF run_middleware_passes_all [OF assms]] .

lemma carries_status_iff:
  "carries_status v \<longleftrightarrow> (\<exists>kvs. v = PDict kvs \<and> lit ''status'' \<in> fst ` set kvs)"
  by (cases v) simp_all

text \<open>
  Claim C7. Registering a middleware appends it to the list. For a request that reaches a
  route, the middleware runs in the order of the list, each on the request the one before
  it left. A middleware lets the request pass when it returns without raising and its
  result is not a dictionary with a \<^verbatim>\<open>status\<close> key (\<open>passes_all\<close>; \<^verbatim>\<open>None\<close>, an empty
  dictionary, any other value). If the middleware before \<open>mw\<close> let the request pass and
  \<open>mw\<close> returns a dictionary with a \<^verbatim>\<open>status\<close> key, that value goes to \<^verbatim>\<open>_send_response\<close>
  and nothing else is called, neither the later middleware nor the handler. If \<open>mw\<close>
  raises, the handler sends the error 500 with the body \<^verbatim>\<open>{'error': message}\<close>, which
  \<^verbatim>\<open>_send_error\<close> writes as JSON, and nothing else is called. If all middleware let the
  request pass, the route handler is called after them: its result goes to
  \<^verbatim>\<open>_send_response\<close>, and if it raises, the error 500 is sent in the same way.
\<close>

theorem middleware_chain_short_circuits:
  assumes "find_static (static_routes self) path = None"
    and "match_route (routes self) method path = Returns (Some (handler, params))"
    and "build_request env params = Inr request"
  shows
    "(middleware self = pre @ mw # post \<and> passes_all env pre request request1
        \<and> call env mw request1 = (Inr v, request2) \<and> carries_status v \<longrightarrow>
      handle_request env self method path
        = Returns (map Call pre @ Call mw # try_send_response env v))
     \<and> (send_fails env v = None \<longrightarrow> try_send_response env v = [SendResponse v])
     \<and> (middleware self = pre @ mw # post \<and> passes_all env pre request request1
        \<and> call env mw request1 = (Inl message, request2) \<longrightarrow>
      handle_request env self method path
        = Returns (map Call pre @ [Call mw, SendError 500 (error_body message)]))
     \<and> (passes_all env (middleware self) request request1
        \<and> call env handler request1 = (Inl message, request2) \<longrightarrow>
      handle_request env self method path
        = Returns (map Call (middleware self) @ [Call handler, SendError 500 (error_body message)]))
     \<and> (passes_all env (middleware self) request request1
        \<and> call env handler request1 = (Inr response, request2) \<longrightarrow>
      handle_request env self method path
        = Returns (map Call (middleware self) @ Call handler # try_send_response env response))
     \<and> (carries_status v' \<longleftrightarrow> (\<exists>kvs. v' = PDict kvs \<and> lit ''status'' \<in> fst ` set kvs))
     \<and> send_error dumps 500 (error_body message)
        = \<lparr>wire_status = 500, wire_headers = [(''Content-Type'', ''application/json'')],
           wire_body = dumps (PDict [(lit ''error'', PStr message)])\<rparr>
     \<and> middleware (add_middleware self mw') = middleware self @ [mw']"
proof (intro conjI impI)
  assume a: "middleware self = pre @ mw # post \<and> passes_all env pre request request1
        \<and> call env mw request1 = (Inr v, request2) \<and> carries_status v"
  then have "v \<noteq> PNone" by auto
  then have "run_middleware env (middleware self) request
      = (map Call pre @ Call mw # try_send_response env v, None)"
    using a run_middleware_after [of env pre request request1 "mw # post"] by simp
  then show "handle_request env self method path
        = Returns (map Call pre @ Call mw # try_send_response env v)"
    using assms by (simp add: handle_request_def)
next
  assume "send_fails env v = None"
  then show "try_send_response env v = [SendResponse v]" by (simp add: try_send_response_def)
next
  assume a: "middleware self = pre @ mw # post \<and> passes_all env pre request request1
        \<and> call env mw request1 = (Inl message, request2)"
  then have "run_middleware env (middleware self) request
      = (map Call pre @ [Call mw, SendError 500 (error_body message)], None)"
    using run_middleware_after [of env pre request request1 "mw # post"] by simp
  then show "handle_request env self method path
        = Returns (map Call pre @ [Call mw, SendError 500 (error_body message)])"
    using assms by (simp add: handle_request_def)
next
  assume a: "passes_all env (middleware self) request request1
        \<and> call env handler request1 = (Inl message, request2)"
  then have "run_middleware env (middleware self) request
      = (map Call (middleware self), Some request1)"
    by (simp add: run_middleware_passes_all)
  then show "handle_request env self method path
        = Returns (map Call (middleware self) @ [Call handler, SendError 500 (error_body message)])"
    using assms a by (simp add: handle_request_def call_handler_def)
next
  assume a: "passes_all env (middleware self) request request1
        \<and> call env handler request1 = (Inr response, request2)"
  then have "run_middleware env (middleware self) request
      = (map Call (middleware self), Some request1)"
    by (simp add: run_middleware_passes_all)
  then show "handle_request env self method path
        = Returns (map Call (middleware self) @ Call handler # try_send_response env response)"
    using assms a by (simp add: handle_request_def call_handler_def)
next
  show "carries_status v' \<longleftrightarrow> (\<exists>kvs. v' = PDict kvs \<and> lit ''status'' \<in> fst ` set kvs)"
    by (rule carries_status_iff)
next
  show "send_error dumps 500 (error_body message)
        = \<lparr>wire_status = 500, wire_headers = [(''Content-Type'', ''application/json'')],
           wire_body = dumps (PDict [(lit ''error'', PStr message)])\<rparr>"
    by (simp add: send_error_def error_body_def)
next
  show "middleware (add_middleware self mw') = middleware self @ [mw']"
    by (simp add: add_middleware_def)
qed

theorem middleware_chain_short_circuits_witness:
  "handle_request
     \<lparr>call = \<lambda>(h :: nat) (r :: nat). if h = 0 then (Inr (PDict []), r + 1)
                    else if h = 1 then (Inr (PDict [(lit ''status'', PInt 403)]), r)
                    else if h = 3 then (Inr PNone, r)
                    else (Inl (lit ''boom''), r),
      build_request = \<lambda>gd. Inr (0 :: nat), send_fails = \<lambda>v. None\<rparr>
     \<lparr>routes = [(''^/a/(?P<id>[^/]+)$'', [''GET''], 9 :: nat, ''/a/:id'')],
      middleware = [0, 3, 1, 2], static_routes = []\<rparr>
     ''GET'' ''/a/static''
   = Returns [Call 0, Call 3, Call 1, SendResponse (PDict [(lit ''status'', PInt 403)])]
   \<and> handle_request
     \<lparr>call = \<lambda>(h :: nat) (r :: nat). if h = 0 then (Inr (PDict []), r + 1)
                    else if h = 1 then (Inr (PDict [(lit ''status'', PInt 403)]), r)
                    else if h = 3 then (Inr PNone, r)
                    else (Inl (lit ''boom''), r),
      build_request = \<lambda>gd. Inr (0 :: nat), send_fails = \<lambda>v. None\<rparr>
     \<lparr>routes = [(''^/a/(?P<id>[^/]+)$'', [''GET''], 9 :: nat, ''/a/:id'')],
      middleware = [0, 2, 1], static_routes = []\<rparr>
     ''GET'' ''/a/static''
   = Returns [Call 0, Call 2, SendError 500 (error_body (lit ''boom''))]
   \<and> handle_request
     \<lparr>call = \<lambda>(h :: nat) (r :: nat). if h = 0 then (Inr (PDict []), r + 1)
                    else if h = 1 then (Inr (PDict [(lit ''status'', PInt 403)]), r)
                    else if h = 3 then (Inr PNone, r)
                    else (Inl (lit ''boom''), r),
      build_request = \<lambda>gd. Inr (0 :: nat), send_fails = \<lambda>v. None\<rparr>
     \<lparr>routes = [(''^/a/(?P<id>[^/]+)$'', [''GET''], 9 :: nat, ''/a/:id'')],
      middleware = [0, 3], static_routes = []\<rparr>
     ''GET'' ''/a/static''
   = Returns [Call 0, Call 3, Call 9, SendError 500 (error_body (lit ''boom''))]
   \<and> handle_request
     \<lparr>call = \<lambda>(h :: nat) (r :: nat). if h = 0 then (Inr (PDict []), r + 1)
                    else if h = 1 then (Inr (PDict [(lit ''status'', PInt 403)]), r)
                    else if h = 3 then (Inr PNone, r)
                    else (Inl (lit ''boom''), r),
      build_request = \<lambda>gd. Inr (0 :: nat), send_fails = \<lambda>v. None\<rparr>
     \<lparr>routes = [(''^/a/(?P<id>[^/]+)$'', [''GET''], 0 :: nat, ''/a/:id'')],
      middleware = [3, 0], static_routes = []\<rparr>
     ''GET'' ''/a/static''
   = Returns [Call 3, Call 0, Call 0, SendResponse (PDict [])]
   \<and> \<not> carries_status (PDict []) \<and> \<not> carries_status PNone
   \<and> carries_status (PDict [(lit ''status'', PInt 403)])"
proof -
  let ?env = "\<lparr>call = \<lambda>(h :: nat) (r :: nat). if h = 0 then (Inr (PDict []), r + 1)
                    else if h = 1 then (Inr (PDict [(lit ''status'', PInt 403)]), r)
                    else if h = 3 then (Inr PNone, r)
                    else (Inl (lit ''boom''), r),
      build_request = \<lambda>gd. Inr (0 :: nat), send_fails = \<lambda>v. None\<rparr>"
  let ?rs = "[(''^/a/(?P<id>[^/]+)$'', [''GET''], 9 :: nat, ''/a/:id'')]"
  let ?rz = "[(''^/a/(?P<id>[^/]+)$'', [''GET''], 0 :: nat, ''/a/:id'')]"
  let ?s1 = "\<lparr>routes = ?rs, middleware = [0, 3, 1, 2], static_routes = []\<rparr>"
  let ?s2 = "\<lparr>routes = ?rs, middleware = [0, 2, 1], static_routes = []\<rparr>"
  let ?s3 = "\<lparr>routes = ?rs, middleware = [0, 3], static_routes = []\<rparr>"
  let ?s4 = "\<lparr>routes = ?rz, middleware = [3, 0], static_routes = []\<rparr>"
  let ?v = "PDict [(lit ''status'', PInt 403)]"
  have m: "match_route ?rs ''GET'' ''/a/static'' = Returns (Some (9, [(''id'', Some ''static'')]))"
    by (simp add: re_match_a_id)
  have m0: "match_route ?rz ''GET'' ''/a/static'' = Returns (Some (0, [(''id'', Some ''static'')]))"
    by (simp add: re_match_a_id)
  have b: "build_request ?env [(''id'', Some ''static'')] = Inr 0" by simp
  have 1: "handle_request ?env ?s1 ''GET'' ''/a/static''
      = Returns [Call 0, Call 3, Call 1, SendResponse ?v]"
  proof -
    have "middleware ?s1 = [0, 3] @ 1 # [2] \<and> passes_all ?env [0, 3] 0 1
        \<and> call ?env 1 1 = (Inr ?v, 1) \<and> carries_status ?v"
      by simp
    from middleware_chain_short_circuits [where self = ?s1 and env = ?env and v = ?v,
        THEN conjunct1, rule_format, OF _ _ b this]
      middleware_chain_short_circuits [where self = ?s1 and env = ?env and v = ?v,
        THEN conjunct2, THEN conjunct1, OF _ _ b]
    show ?thesis using m by simp
  qed
  have 2: "handle_request ?env ?s2 ''GET'' ''/a/static''
      = Returns [Call 0, Call 2, SendError 500 (error_body (lit ''boom''))]"
  proof -
    have "middleware ?s2 = [0] @ 2 # [1] \<and> passes_all ?env [0] 0 1
        \<and> call ?env 2 1 = (Inl (lit ''boom''), 1)"
      by simp
    from middleware_chain_short_circuits [where self = ?s2 and env = ?env,
        THEN conjunct2, THEN conjunct2, THEN conjunct1, rule_format, OF _ _ b this]
    show ?thesis using m by simp
  qed
  have 3: "handle_request ?env ?s3 ''GET'' ''/a/static''
      = Returns [Call 0, Call 3, Call 9, SendError 500 (error_body (lit ''boom''))]"
  proof -
    have "passes_all ?env (middleware ?s3) 0 1
        \<and> call ?env 9 1 = (Inl (lit ''boom''), 1)"
      by simp
    from middleware_chain_short_circuits [where self = ?s3 and env = ?env,
        THEN conjunct2, THEN conjunct2, THEN conjunct2, THEN conjunct1, rule_format, OF _ _ b this]
    show ?thesis using m by simp
  qed
  have 4: "handle_request ?env ?s4 ''GET'' ''/a/static''
      = Returns [Call 3, Call 0, Call 0, SendResponse (PDict [])]"
  proof -
    have "passes_all ?env (middleware ?s4) 0 1
        \<and> call ?env 0 1 = (Inr (PDict []), 2)"
      by simp
    from middleware_chain_short_circuits [where self = ?s4 and env = ?env,
        THEN conjunct2, THEN conjunct2, THEN conjunct2, THEN conjunct2, THEN conjunct1,
        rule_format, OF _ _ b this]
    show ?thesis using m0 by (simp add: try_send_response_def)
  qed
  have 5: "\<not> carries_status (PDict []) \<and> \<not> carries_status PNone \<and> carries_status ?v"
    by simp
  from 1 2 3 4 5 show ?thesis by blast
qed

subsection \<open>Request bodies\<close>

text \<open>
  Claim C1 says that \<^verbatim>\<open>_parse_body\<close> never raises. The code decodes the body strictly in
  the JSON and in the url-encoded branch, and the headers of a part in the multipart
  branch, and catches only \<^verbatim>\<open>JSONDecodeError\<close>: a body with a byte that is not UTF-8
  raises \<^verbatim>\<open>UnicodeDecodeError\<close> in each of the three, whatever \<^verbatim>\<open>json.loads\<close> and
  \<^verbatim>\<open>parse_qs\<close> do. The multipart body below is \<^verbatim>\<open>--X\r\n\xff\r\n\r\na\r\n--X--\<close>.
\<close>

theorem parse_body_raises_on_invalid_utf8:
  "parse_body loads parse_qs ''application/json'' [0xFF] = Inl UnicodeDecodeError
   \<and> parse_body loads parse_qs ''application/x-www-form-urlencoded'' [0xFF] = Inl UnicodeDecodeError
   \<and> parse_body loads parse_qs ''multipart/form-data; boundary=X''
        [45, 45, 88, 13, 10, 255, 13, 10, 13, 10, 97, 13, 10, 45, 45, 88, 45, 45]
      = Inl UnicodeDecodeError"
proof (intro conjI)
  show "parse_body loads parse_qs ''application/json'' [0xFF] = Inl UnicodeDecodeError"
    by (simp add: parse_body_def utf8_next_def cont_ranges_def)
  show "parse_body loads parse_qs ''application/x-www-form-urlencoded'' [0xFF]
      = Inl UnicodeDecodeError"
    by (simp add: parse_body_def utf8_next_def cont_ranges_def)
  have b: "search_group ''boundary='' (\<lambda>c. c \<noteq> CHR '';'') [] ''multipart/form-data; boundary=X''
      = Some ''X''"
    by simp
  have e: "utf8_encode (lit ''--X'') = Inr [45, 45, 88]"
    by (simp add: lit_def utf8_encode_char_def)
  have s: "split [45, 45, 88, 13, 10, 255, 13, 10, 13, 10, 97, 13, 10, 45, 45, 88, 45, 45 :: byte]
        [45, 45, 88]
      = [[], [13, 10, 255, 13, 10, 13, 10, 97, 13, 10], [45, 45]]"
    by (simp add: split_def)
  have f: "find_sub [13, 10, 13, 10 :: byte] [13, 10, 255, 13, 10, 13, 10, 97, 13, 10] = Some 3"
    by simp
  have p: "parse_part [13, 10, 255, 13, 10, 13, 10, 97, 13, 10] ([], []) = Inl UnicodeDecodeError"
    unfolding parse_part_def f
    by (simp add: is_space_def utf8_next_def cont_ranges_def)
  have "parse_multipart ''multipart/form-data; boundary=X''
        [45, 45, 88, 13, 10, 255, 13, 10, 13, 10, 97, 13, 10, 45, 45, 88, 45, 45]
      = Inl UnicodeDecodeError"
    unfolding parse_multipart_def b by (simp add: e s p)
  then show "parse_body loads parse_qs ''multipart/form-data; boundary=X''
        [45, 45, 88, 13, 10, 255, 13, 10, 13, 10, 97, 13, 10, 45, 45, 88, 45, 45]
      = Inl UnicodeDecodeError"
    by (simp add: parse_body_def)
qed

end
